theory Spec2Isabelle
  imports Main "HOL-Library.AList" "HOL-Library.Char_ord" "HOL-Library.List_Lexorder"
begin

section \<open>The upload store of ui/src/state/storage/upload.ts\<close>

text \<open>
  The store is a zustand store: one immutable state value, replaced by every \<open>set\<close>.
  The model passes that value explicitly. A JavaScript object used as a dictionary
  (\<open>uploaders\<close>, \<open>files\<close>) is an association list whose keys are kept distinct by
  \<open>AList.update\<close>, in insertion order, as \<open>Object.keys\<close> reports string keys. A field a
  JavaScript object may lack is an \<open>option\<close>. A \<open>TypeError\<close> thrown by a property access
  on \<open>undefined\<close> is the value \<open>Inl TypeError\<close>; immer's \<open>produce\<close> drops the draft
  when its recipe throws, so a failed update leaves the store as it was.
\<close>

subsection \<open>Data\<close>

datatype Status = initial | loading | success | error

datatype StorageService = presigned_url | credentials

record StorageCredentials =
  endpoint :: string
  accessKeyId :: string
  secretAccessKey :: string

record StorageConfiguration =
  service :: StorageService
  presignedUrl :: string
  currentBucket :: string
  publicUrlBase :: string
  region :: string

record File =
  name :: string
  ftype :: string
  fsize :: nat

text \<open>
  A record of the \<open>files\<close> dictionary. \<open>uploadFiles\<close> seeds every field but
  \<open>errorMessage\<close>; \<open>updateFile\<close> on a key that is not there creates an object that
  has \<open>size\<close> and \<open>url\<close> only, so \<open>file\<close>, \<open>key\<close> and \<open>status\<close> are optional too.
\<close>

record FileUpload =
  file' :: "File option"
  key :: "string option"
  status :: "Status option"
  errorMessage :: "string option"
  url :: string
  size_wh :: "nat \<times> nat"

text \<open>
  An uploader as \<open>emptyUploader\<close> builds it: the \<open>files\<close> dictionary, and the key and
  configuration its closures (\<open>uploadFiles\<close>, \<open>clear\<close>, \<open>removeByURL\<close>, ...) are bound to.
\<close>

record Uploader =
  files :: "(string \<times> FileUpload) list"
  ukey :: string
  uconfig :: StorageConfiguration

text \<open>The arguments \<open>createClient\<close> hands to \<open>new S3Client\<close>.\<close>

record S3Client =
  client_endpoint :: "string \<times> string \<times> string"
  client_region :: string
  client_credentials :: StorageCredentials
  forcePathStyle :: bool

record FileStore =
  client :: "S3Client option"
  uploaders :: "(string \<times> Uploader) list"

datatype js_error = TypeError

text \<open>
  What the module reads from its platform and from \<open>@urbit/aura\<close>, none of it code of
  this repository: \<open>window.ship\<close>; \<open>da ms\<close> for
  \<open>deSig(formatDa(unixToDa(ms)))\<close>; \<open>newURL key base\<close> for
  \<open>new URL(key, base).toString()\<close> and \<open>parseURL e\<close> for the protocol, host and
  pathname of \<open>new URL(e)\<close>, both \<open>None\<close> where the constructor throws.
\<close>

record platform =
  ship :: string
  da :: "nat \<Rightarrow> string"
  newURL :: "string \<Rightarrow> string \<Rightarrow> string option"
  parseURL :: "string \<Rightarrow> (string \<times> string \<times> string) option"

subsection \<open>The client\<close>

fun contains :: "string \<Rightarrow> string \<Rightarrow> bool" where
  "contains sub [] = (sub = [])"
| "contains sub (c # cs) = (take (length sub) (c # cs) = sub \<or> contains sub cs)"

definition prefixEndpoint :: "string \<Rightarrow> string" where
  "prefixEndpoint e =
     (if contains ''http://'' e \<or> contains ''https://'' e then e else ''https://'' @ e)"

definition createClient ::
  "platform \<Rightarrow> StorageCredentials \<Rightarrow> string \<Rightarrow> FileStore \<Rightarrow> js_error + FileStore" where
  "createClient P creds reg s =
     (case parseURL P (prefixEndpoint (endpoint creds)) of
        None \<Rightarrow> Inl TypeError
      | Some (protocol, host, pathname) \<Rightarrow>
          Inr (s\<lparr>client := Some
            \<lparr>client_endpoint =
               (butlast protocol, host, if pathname = [] then ''/'' else pathname),
             client_region = (if reg = [] then ''us-east-1'' else reg),
             client_credentials = creds,
             forcePathStyle = True\<rparr>\<rparr>))"

text \<open>
  \<open>useClient\<close>: the first effect latches \<open>hasCredentials\<close> once the configuration is
  the credentials one and all three credential fields are non-empty; the second
  effect calls \<open>initClient\<close> when the latch is set and the client the render saw is
  \<open>null\<close>.
\<close>

definition hasCreds :: "StorageConfiguration \<Rightarrow> StorageCredentials option \<Rightarrow> bool" where
  "hasCreds configuration creds =
     (service configuration = credentials \<and>
      (case creds of
         None \<Rightarrow> False
       | Some c \<Rightarrow> accessKeyId c \<noteq> [] \<and> endpoint c \<noteq> [] \<and> secretAccessKey c \<noteq> []))"

definition initClient ::
  "platform \<Rightarrow> StorageCredentials option \<Rightarrow> StorageConfiguration \<Rightarrow> FileStore
     \<Rightarrow> js_error + FileStore" where
  "initClient P creds configuration s =
     (case creds of
        None \<Rightarrow> Inr s
      | Some c \<Rightarrow> createClient P c (region configuration) s)"

definition useClient ::
  "platform \<Rightarrow> bool \<Rightarrow> S3Client option \<Rightarrow> StorageCredentials option \<Rightarrow> StorageConfiguration
     \<Rightarrow> FileStore \<Rightarrow> js_error + FileStore" where
  "useClient P hasCredentials seen_client creds configuration s =
     (if hasCredentials \<and> seen_client = None then initClient P creds configuration s
      else Inr s)"

subsection \<open>Store operations\<close>

definition getUploader :: "string \<Rightarrow> FileStore \<Rightarrow> Uploader option" where
  "getUploader k s = map_of (uploaders s) k"

text \<open>
  \<open>update\<close> runs the recipe on \<open>draft.uploaders[key]\<close>. Every recipe of the module
  reads or writes \<open>draft.files\<close> first, which throws when there is no such uploader.
\<close>

definition update ::
  "string \<Rightarrow> (Uploader \<Rightarrow> js_error + Uploader) \<Rightarrow> FileStore \<Rightarrow> js_error + FileStore" where
  "update k updateFn s =
     (case map_of (uploaders s) k of
        None \<Rightarrow> Inl TypeError
      | Some draft \<Rightarrow>
          (case updateFn draft of
             Inl e \<Rightarrow> Inl e
           | Inr draft' \<Rightarrow> Inr (s\<lparr>uploaders := AList.update k draft' (uploaders s)\<rparr>)))"

definition clear :: "string \<Rightarrow> FileStore \<Rightarrow> js_error + FileStore" where
  "clear uploader s = update uploader (\<lambda>draft. Inr (draft\<lparr>files := []\<rparr>)) s"

text \<open>Both callers pass the patch \<open>{size, url}\<close>.\<close>

definition updateFile ::
  "string \<Rightarrow> string \<Rightarrow> (nat \<times> nat) \<times> string \<Rightarrow> FileStore \<Rightarrow> js_error + FileStore" where
  "updateFile uploader fileKey patch s =
     update uploader
       (\<lambda>draft. Inr (draft\<lparr>files := AList.update fileKey
          (case map_of (files draft) fileKey of
             None \<Rightarrow> \<lparr>file' = None, key = None, status = None, errorMessage = None,
                       url = snd patch, size_wh = fst patch\<rparr>
           | Some current \<Rightarrow> current\<lparr>size_wh := fst patch, url := snd patch\<rparr>)
          (files draft)\<rparr>)) s"

definition updateStatus ::
  "string \<Rightarrow> string \<Rightarrow> Status \<Rightarrow> string option \<Rightarrow> FileStore \<Rightarrow> js_error + FileStore" where
  "updateStatus uploader fileKey st msg s =
     update uploader
       (\<lambda>draft. case map_of (files draft) fileKey of
          None \<Rightarrow> Inl TypeError
        | Some f \<Rightarrow>
            Inr (draft\<lparr>files := AList.update fileKey
              (let f' = f\<lparr>status := Some st\<rparr>
               in if st = error \<and> msg \<noteq> None \<and> msg \<noteq> Some []
                  then f'\<lparr>errorMessage := msg\<rparr> else f')
              (files draft)\<rparr>)) s"

definition removeByURL :: "string \<Rightarrow> string \<Rightarrow> FileStore \<Rightarrow> js_error + FileStore" where
  "removeByURL uploader u s =
     update uploader
       (\<lambda>draft. Inr (draft\<lparr>files := filter (\<lambda>(_, f). url f \<noteq> u) (files draft)\<rparr>)) s"


subsection \<open>The uploader registry\<close>

definition emptyUploader :: "string \<Rightarrow> StorageConfiguration \<Rightarrow> Uploader" where
  "emptyUploader k config = \<lparr>files = [], ukey = k, uconfig = config\<rparr>"

text \<open>
  The effect of \<open>useUploader\<close>, with the client the render saw; the hook itself
  returns \<open>getUploader key\<close> of the store it rendered with.
\<close>

definition prerequisites :: "S3Client option \<Rightarrow> StorageConfiguration \<Rightarrow> bool" where
  "prerequisites seen_client configuration =
     ((seen_client \<noteq> None \<and> service configuration = credentials) \<or>
      (service configuration = presigned_url \<and> presignedUrl configuration \<noteq> []))"

definition useUploader ::
  "string \<Rightarrow> S3Client option \<Rightarrow> StorageConfiguration \<Rightarrow> FileStore \<Rightarrow> FileStore" where
  "useUploader k seen_client configuration s =
     (if prerequisites seen_client configuration
      then s\<lparr>uploaders := AList.update k (emptyUploader k configuration) (uploaders s)\<rparr>
      else s)"

subsection \<open>Submission and dispatch\<close>

text \<open>
  The event loop. A promise that is still pending is a \<open>task\<close>; the environment
  settles it with an \<open>outcome\<close>, and the callbacks chained on it run then. Awaits
  between which the module does not touch the store are settled together. \<open>seen\<close>
  lists every state the store has held, oldest first: zustand calls its subscribers
  after each \<open>set\<close>. \<open>unhandled\<close> counts promise rejections nothing catches.
\<close>

datatype 'a settled = Resolved 'a | Rejected string

record Response =
  status_code :: nat
  body_text :: "string settled"
  body_json :: "string settled"

datatype task =
    PresignedPut string string string
  | Send string string "string option"
  | ImageSize string string string

datatype outcome =
    Presigned "string settled" "Response settled" "Response settled"
  | Sent "string settled" "unit settled"
  | Measured "(nat \<times> nat) settled"

record world =
  store :: FileStore
  seen :: "FileStore list"
  tasks :: "task list"
  unhandled :: nat

definition set_store :: "FileStore \<Rightarrow> world \<Rightarrow> world" where
  "set_store s w = w\<lparr>store := s, seen := seen w @ [s]\<rparr>"

definition reject :: "world \<Rightarrow> world" where
  "reject w = w\<lparr>unhandled := Suc (unhandled w)\<rparr>"

definition message :: "js_error \<Rightarrow> string" where
  "message e = ''Cannot read properties of undefined''"

definition uploadKey :: "platform \<Rightarrow> nat \<Rightarrow> File \<Rightarrow> string" where
  "uploadKey P ms f = ship P @ ''/'' @ da P ms @ ''-'' @ name f"

text \<open>
  \<open>fileList\<close> of \<open>uploadFiles\<close>, each record with its key; a file comes with the
  time \<open>new Date().getTime()\<close> returns when its record is built.
\<close>

definition fileList :: "platform \<Rightarrow> (File \<times> nat) list \<Rightarrow> (string \<times> FileUpload) list" where
  "fileList P fs =
     map (\<lambda>(f, ms). (uploadKey P ms f,
        \<lparr>file' = Some f, key = Some (uploadKey P ms f), status = Some initial,
         errorMessage = None, url = [], size_wh = (0, 0)\<rparr>)) fs"

text \<open>\<open>{...dst, ...src}\<close>, and lodash's \<open>keyBy\<close> on the key of each pair.\<close>

definition assign ::
  "(string \<times> 'a) list \<Rightarrow> (string \<times> 'a) list \<Rightarrow> (string \<times> 'a) list" where
  "assign dst src = fold (\<lambda>(k, v). AList.update k v) src dst"

definition keyBy :: "(string \<times> 'a) list \<Rightarrow> (string \<times> 'a) list" where
  "keyBy xs = assign [] xs"

definition tlon_error :: "string \<Rightarrow> string" where
  "tlon_error msg = ''Tlon Hosting upload error: '' @ msg @ '', contact support if it persists.''"

definition s3_error :: "string \<Rightarrow> string" where
  "s3_error msg = ''S3 upload error: '' @ msg @ '', check your S3 configuration.''"

text \<open>
  \<open>upload\<close> up to its first pending promise. It is an async function nobody awaits:
  a throw in it is an unhandled rejection.
\<close>

definition upload :: "platform \<Rightarrow> string \<Rightarrow> string \<Rightarrow> StorageConfiguration \<Rightarrow> world \<Rightarrow> world" where
  "upload P uploader k config w =
     (let c = client (store w)
      in case updateStatus uploader k loading None (store w) of
           Inl e \<Rightarrow> reject w
         | Inr s \<Rightarrow>
             (let w1 = set_store s w;
                  w2 = (if service config = presigned_url \<and> presignedUrl config \<noteq> []
                        then w1\<lparr>tasks := tasks w1 @
                               [PresignedPut uploader k (presignedUrl config @ ''/'' @ k)]\<rparr>
                        else w1)
              in if service config = credentials \<and> c \<noteq> None
                 then (if publicUrlBase config \<noteq> []
                       then (case newURL P k (publicUrlBase config) of
                               None \<Rightarrow> reject w2
                             | Some u \<Rightarrow> w2\<lparr>tasks := tasks w2 @ [Send uploader k (Some u)]\<rparr>)
                       else w2\<lparr>tasks := tasks w2 @ [Send uploader k None]\<rparr>)
                 else w2))"

definition uploadFiles ::
  "platform \<Rightarrow> string \<Rightarrow> (File \<times> nat) list option \<Rightarrow> StorageConfiguration \<Rightarrow> world
     \<Rightarrow> js_error + world" where
  "uploadFiles P uploader fs config w =
     (case fs of
        None \<Rightarrow> Inr w
      | Some fs' \<Rightarrow>
          (let newFiles = keyBy (fileList P fs')
           in case update uploader
                     (\<lambda>draft. Inr (draft\<lparr>files := assign (files draft) newFiles\<rparr>)) (store w) of
                Inl e \<Rightarrow> Inl e
              | Inr s \<Rightarrow>
                  Inr (fold (\<lambda>(k, f). upload P uploader k config) (fileList P fs')
                         (set_store s w))))"

text \<open>The callbacks of the two strategies: the body after the url is known, and the catch.\<close>

definition then_success :: "string \<Rightarrow> string \<Rightarrow> string \<Rightarrow> world \<Rightarrow> js_error + world" where
  "then_success uploader k u w =
     (case updateStatus uploader k success None (store w) of
        Inl e \<Rightarrow> Inl e
      | Inr s \<Rightarrow> Inr ((set_store s w)\<lparr>tasks := tasks w @ [ImageSize uploader k u]\<rparr>))"

definition catch_error :: "string \<Rightarrow> string \<Rightarrow> string \<Rightarrow> world \<Rightarrow> world" where
  "catch_error uploader k msg w =
     (case updateStatus uploader k error (Some msg) (store w) of
        Inl e \<Rightarrow> reject w
      | Inr s \<Rightarrow> set_store s w)"

text \<open>
  The \<open>then\<close> callback of the proxy PUT up to \<open>fileUrl\<close>: what it throws, or the url
  the follow-up GET returns.
\<close>

definition put_response :: "Response \<Rightarrow> Response settled \<Rightarrow> string settled" where
  "put_response response get =
     (if status_code response \<noteq> 200
      then (case body_text response of
              Rejected m \<Rightarrow> Rejected m
            | Resolved body \<Rightarrow>
                Rejected (if body \<noteq> [] then body else ''Incorrect response status''))
      else (case get of
              Rejected m \<Rightarrow> Rejected m
            | Resolved fileUrlResponse \<Rightarrow> body_json fileUrlResponse))"

text \<open>The promise \<open>fetch(urlWithToken, requestOptions).then(...)\<close> before its \<open>catch\<close>.\<close>

definition fetch_then :: "Response settled \<Rightarrow> Response settled \<Rightarrow> string settled" where
  "fetch_then put get =
     (case put of
        Rejected m \<Rightarrow> Rejected m
      | Resolved response \<Rightarrow> put_response response get)"

definition settle_presigned ::
  "string \<Rightarrow> string \<Rightarrow> string settled \<Rightarrow> Response settled \<Rightarrow> Response settled \<Rightarrow> world
     \<Rightarrow> world" where
  "settle_presigned uploader k token put get w =
     (case token of
        Rejected m \<Rightarrow> reject w
      | Resolved t \<Rightarrow>
          (case fetch_then put get of
             Rejected m \<Rightarrow> catch_error uploader k (tlon_error m) w
           | Resolved fileUrl \<Rightarrow>
               (case then_success uploader k fileUrl w of
                  Inl e \<Rightarrow> catch_error uploader k (tlon_error (message e)) w
                | Inr w' \<Rightarrow> w')))"

text \<open>
  The \<open>url\<close> of the credentials strategy: computed from \<open>publicUrlBase\<close> when
  \<open>upload\<close> starts, else the signed url up to its query string.
\<close>

definition object_url :: "string option \<Rightarrow> string settled \<Rightarrow> string settled" where
  "object_url base_url signed =
     (case base_url of
        Some u \<Rightarrow> Resolved u
      | None \<Rightarrow>
          (case signed of
             Rejected m \<Rightarrow> Rejected m
           | Resolved res \<Rightarrow> Resolved (takeWhile (\<lambda>c. c \<noteq> CHR ''?'') res)))"

definition settle_send ::
  "string \<Rightarrow> string \<Rightarrow> string option \<Rightarrow> string settled \<Rightarrow> unit settled \<Rightarrow> world \<Rightarrow> world" where
  "settle_send uploader k base_url signed sent w =
     (case object_url base_url signed of
        Rejected m \<Rightarrow> reject w
      | Resolved u \<Rightarrow>
          (case sent of
             Rejected m \<Rightarrow> catch_error uploader k (s3_error m) w
           | Resolved _ \<Rightarrow>
               (case then_success uploader k u w of
                  Inl e \<Rightarrow> catch_error uploader k (s3_error (message e)) w
                | Inr w' \<Rightarrow> w')))"

definition settle_size ::
  "string \<Rightarrow> string \<Rightarrow> string \<Rightarrow> (nat \<times> nat) settled \<Rightarrow> world \<Rightarrow> world" where
  "settle_size uploader k u measured w =
     (case measured of
        Rejected m \<Rightarrow> reject w
      | Resolved sz \<Rightarrow>
          (case updateFile uploader k (sz, u) (store w) of
             Inl e \<Rightarrow> reject w
           | Inr s \<Rightarrow> set_store s w))"

fun run_task :: "task \<Rightarrow> outcome \<Rightarrow> world \<Rightarrow> world option" where
  "run_task (PresignedPut uploader k u) (Presigned token put get) w =
     Some (settle_presigned uploader k token put get w)"
| "run_task (Send uploader k base_url) (Sent signed sent) w =
     Some (settle_send uploader k base_url signed sent w)"
| "run_task (ImageSize uploader k u) (Measured measured) w =
     Some (settle_size uploader k u measured w)"
| "run_task _ _ w = None"

text \<open>
  The \<open>i\<close>-th pending promise settles: it leaves the pending list and its callbacks
  run. An outcome of the wrong kind for the task is no event, and changes nothing.
\<close>

definition settle :: "nat \<Rightarrow> outcome \<Rightarrow> world \<Rightarrow> world" where
  "settle i out w =
     (if i < length (tasks w)
      then (case run_task (tasks w ! i) out
                   (w\<lparr>tasks := take i (tasks w) @ drop (Suc i) (tasks w)\<rparr>) of
              None \<Rightarrow> w
            | Some w' \<Rightarrow> w')
      else w)"

text \<open>
  What can happen to the store: the hooks' effects, the calls an \<open>Uploader\<close> offers,
  and the settling of a pending promise. A call that throws to its caller leaves the
  world as it was. The effect of \<open>useUploader\<close> runs with the client of the store it
  finds.
\<close>

datatype event =
    CreateClient StorageCredentials string
  | UseUploader string StorageConfiguration
  | UploadFiles string "(File \<times> nat) list option" StorageConfiguration
  | Clear string
  | RemoveByURL string string
  | Settle nat outcome

definition call :: "(FileStore \<Rightarrow> js_error + FileStore) \<Rightarrow> world \<Rightarrow> world" where
  "call f w = (case f (store w) of Inl e \<Rightarrow> w | Inr s \<Rightarrow> set_store s w)"

fun step :: "platform \<Rightarrow> event \<Rightarrow> world \<Rightarrow> world" where
  "step P (CreateClient creds reg) w = call (createClient P creds reg) w"
| "step P (UseUploader k configuration) w =
     (if prerequisites (client (store w)) configuration
      then set_store (useUploader k (client (store w)) configuration (store w)) w
      else w)"
| "step P (UploadFiles uploader fs config) w =
     (case uploadFiles P uploader fs config w of Inl e \<Rightarrow> w | Inr w' \<Rightarrow> w')"
| "step P (Clear uploader) w = call (clear uploader) w"
| "step P (RemoveByURL uploader u) w = call (removeByURL uploader u) w"
| "step P (Settle i out) w = settle i out w"

definition run :: "platform \<Rightarrow> event list \<Rightarrow> world \<Rightarrow> world" where
  "run P evs w = fold (step P) evs w"

definition store0 :: FileStore where
  "store0 = \<lparr>client = None, uploaders = []\<rparr>"

definition world0 :: world where
  "world0 = \<lparr>store = store0, seen = [store0], tasks = [], unhandled = 0\<rparr>"

subsection \<open>Observations\<close>

definition files_of :: "FileStore \<Rightarrow> string \<Rightarrow> string \<Rightarrow> FileUpload option" where
  "files_of s uploader k =
     (case getUploader uploader s of None \<Rightarrow> None | Some up \<Rightarrow> map_of (files up) k)"

definition status_of :: "FileStore \<Rightarrow> string \<Rightarrow> string \<Rightarrow> Status option" where
  "status_of s uploader k =
     (case files_of s uploader k of None \<Rightarrow> None | Some f \<Rightarrow> status f)"

subsection \<open>A concrete setting for worked examples\<close>

definition demo_platform :: platform where
  "demo_platform =
     \<lparr>ship = ''~zod'',
      da = (\<lambda>ms. if ms = 0 then ''2023.1.5..10.00.00'' else ''2023.1.5..10.00.01''),
      newURL = (\<lambda>k base. Some (base @ k)),
      parseURL = (\<lambda>e. Some (''https:'', drop 8 e, ''/''))\<rparr>"

definition proxy_config :: StorageConfiguration where
  "proxy_config =
     \<lparr>service = presigned_url, presignedUrl = ''https://proxy.example'',
      currentBucket = [], publicUrlBase = [], region = []\<rparr>"

definition bucket_config :: StorageConfiguration where
  "bucket_config =
     \<lparr>service = credentials, presignedUrl = [],
      currentBucket = ''att'', publicUrlBase = ''https://cdn.example/'', region = []\<rparr>"

definition demo_credentials :: StorageCredentials where
  "demo_credentials =
     \<lparr>endpoint = ''s3.example'', accessKeyId = ''AK'', secretAccessKey = ''SK''\<rparr>"

definition photo :: File where
  "photo = \<lparr>name = ''photo.png'', ftype = ''image/png'', fsize = 3\<rparr>"

definition song :: File where
  "song = \<lparr>name = ''song.mp3'', ftype = ''audio/mpeg'', fsize = 5\<rparr>"




definition ok_response :: Response where
  "ok_response =
     \<lparr>status_code = 200, body_text = Resolved [],
      body_json = Resolved ''https://cdn.example/photo.png''\<rparr>"

definition quota_response :: Response where
  "quota_response =
     \<lparr>status_code = 500, body_text = Resolved ''quota exceeded'',
      body_json = Rejected ''Unexpected token''\<rparr>"

subsection \<open>Invariants of the event loop\<close>

text \<open>The keys of every \<open>files\<close> dictionary are distinct, as those of an object are.\<close>

definition wf_store :: "FileStore \<Rightarrow> bool" where
  "wf_store s = (\<forall>u up. getUploader u s = Some up \<longrightarrow> distinct (map fst (files up)))"

text \<open>The record \<open>updateStatus\<close> writes, and the one \<open>updateFile\<close> writes.\<close>

definition with_status :: "Status \<Rightarrow> string option \<Rightarrow> FileUpload \<Rightarrow> FileUpload" where
  "with_status st msg f =
     (if st = error \<and> msg \<noteq> None \<and> msg \<noteq> Some []
      then f\<lparr>status := Some st, errorMessage := msg\<rparr> else f\<lparr>status := Some st\<rparr>)"

definition patched :: "(nat \<times> nat) \<times> string \<Rightarrow> FileUpload option \<Rightarrow> FileUpload" where
  "patched patch cur =
     (case cur of
        None \<Rightarrow> \<lparr>file' = None, key = None, status = None, errorMessage = None,
                  url = snd patch, size_wh = fst patch\<rparr>
      | Some current \<Rightarrow> current\<lparr>size_wh := fst patch, url := snd patch\<rparr>)"

subsection \<open>Traces\<close>

text \<open>
  The statuses a record has shown, in order, a repeated status counted once; states
  in which the record is missing or has no status show nothing.
\<close>

definition status_trace :: "world \<Rightarrow> string \<Rightarrow> string \<Rightarrow> Status list" where
  "status_trace w u k = remdups_adj (List.map_filter (\<lambda>s. status_of s u k) (seen w))"

subsection \<open>Pending tasks and the invariant of a record\<close>

text \<open>The record a pending task will write to, and whether it is a transfer.\<close>

fun target :: "task \<Rightarrow> string \<times> string" where
  "target (PresignedPut u k x) = (u, k)"
| "target (Send u k x) = (u, k)"
| "target (ImageSize u k x) = (u, k)"

fun is_dispatch :: "task \<Rightarrow> bool" where
  "is_dispatch (ImageSize u k x) = False"
| "is_dispatch t = True"

definition key_tasks :: "world \<Rightarrow> string \<Rightarrow> string \<Rightarrow> task list" where
  "key_tasks w u k = filter (\<lambda>t. target t = (u, k)) (tasks w)"

text \<open>The prefixes of the two lifecycles.\<close>

definition lifecycle :: "Status list \<Rightarrow> bool" where
  "lifecycle T =
     (T = [] \<or> T = [initial] \<or> T = [initial, loading] \<or>
      T = [initial, loading, success] \<or> T = [initial, loading, error])"

text \<open>
  The invariant of one record, for the keys \<open>G\<close> built so far and the keys \<open>Q\<close>
  seeded but not yet handed to \<open>upload\<close>: what it has shown is a prefix of a
  lifecycle and ends in its present status; a key not built yet has no record, history
  or task; a seeded key has shown \<open>initial\<close> only; a key has at most one pending task,
  and while a transfer (a measurement) is pending the record, unless it is gone, is
  \<open>loading\<close> (\<open>success\<close>).
\<close>

definition key_inv :: "string set \<Rightarrow> string set \<Rightarrow> world \<Rightarrow> string \<Rightarrow> string \<Rightarrow> bool" where
  "key_inv G Q w u k =
     (lifecycle (status_trace w u k) \<and>
      (\<forall>st. status_of (store w) u k = Some st \<longrightarrow>
         status_trace w u k \<noteq> [] \<and> last (status_trace w u k) = st) \<and>
      (k \<notin> G \<longrightarrow> status_trace w u k = [] \<and> files_of (store w) u k = None \<and>
         key_tasks w u k = []) \<and>
      (k \<in> Q \<longrightarrow> status_trace w u k = [initial] \<and> status_of (store w) u k = Some initial \<and>
         key_tasks w u k = []) \<and>
      length (key_tasks w u k) \<le> 1 \<and>
      (\<forall>t \<in> set (key_tasks w u k).
         if is_dispatch t
         then status_trace w u k = [initial, loading] \<and>
              (files_of (store w) u k = None \<or> status_of (store w) u k = Some loading)
         else status_trace w u k = [initial, loading, success] \<and>
              (files_of (store w) u k = None \<or> status_of (store w) u k = Some success)))"

definition inv :: "string set \<Rightarrow> string set \<Rightarrow> world \<Rightarrow> string \<Rightarrow> bool" where
  "inv G Q w u = (wf_store (store w) \<and> (\<forall>k. key_inv G Q w u k))"

text \<open>A record whose transfer, or measurement, has just left the pending list.\<close>

definition ready_dispatch :: "world \<Rightarrow> string \<Rightarrow> string \<Rightarrow> bool" where
  "ready_dispatch w u k =
     (key_tasks w u k = [] \<and> status_trace w u k = [initial, loading] \<and>
      (files_of (store w) u k = None \<or> status_of (store w) u k = Some loading))"

definition ready_size :: "world \<Rightarrow> string \<Rightarrow> string \<Rightarrow> bool" where
  "ready_size w u k =
     (key_tasks w u k = [] \<and> status_trace w u k = [initial, loading, success] \<and>
      (files_of (store w) u k = None \<or> status_of (store w) u k = Some success))"

text \<open>The keys \<open>uploadFiles\<close> builds for an uploader along a list of events.\<close>

fun event_keys :: "platform \<Rightarrow> string \<Rightarrow> event \<Rightarrow> string list" where
  "event_keys P u (UploadFiles u' (Some fs) cfg) =
     (if u' = u then map fst (fileList P fs) else [])"
| "event_keys P u e = []"

definition generated :: "platform \<Rightarrow> string \<Rightarrow> event list \<Rightarrow> string list" where
  "generated P u evs = concat (map (event_keys P u) evs)"

section \<open>Properties\<close>

subsection \<open>The store operations, case by case\<close>

lemma getUploader_update [simp]:
  "getUploader k' (s\<lparr>uploaders := AList.update k up (uploaders s)\<rparr>) =
     (if k' = k then Some up else getUploader k' s)"
  by (simp add: getUploader_def update_conv')

lemma update_Inr:
  "update k fn s = Inr s' \<longleftrightarrow>
     (\<exists>up up'. getUploader k s = Some up \<and> fn up = Inr up' \<and>
        s' = s\<lparr>uploaders := AList.update k up' (uploaders s)\<rparr>)"
  by (auto simp: update_def getUploader_def split: option.splits sum.splits)

lemma update_Inl_absent: "getUploader k s = None \<Longrightarrow> update k fn s = Inl TypeError"
  by (simp add: update_def getUploader_def)

lemma files_of_update:
  "files_of (s\<lparr>uploaders := AList.update k up (uploaders s)\<rparr>) u' k' =
     (if u' = k then map_of (files up) k' else files_of s u' k')"
  by (simp add: files_of_def)

lemma updateStatus_absent:
  "files_of s u k = None \<Longrightarrow> updateStatus u k st msg s = Inl TypeError"
  by (auto simp: updateStatus_def update_def files_of_def getUploader_def split: option.splits)

lemma updateStatus_present:
  assumes "files_of s u k = Some f"
  shows "\<exists>s'. updateStatus u k st msg s = Inr s' \<and> client s' = client s \<and>
           (\<forall>u' k'. files_of s' u' k' =
              (if u' = u \<and> k' = k then Some (with_status st msg f) else files_of s u' k')) \<and>
           (wf_store s \<longrightarrow> wf_store s')"
  using assms
  by (auto simp: updateStatus_def update_def files_of_def getUploader_def update_conv' with_status_def
        wf_store_def distinct_update Let_def split: option.splits)

lemma updateStatus_cases:
  obtains (absent) "files_of s u k = None" "updateStatus u k st msg s = Inl TypeError"
  | (present) f s' where "files_of s u k = Some f" "updateStatus u k st msg s = Inr s'"
      "client s' = client s"
      "\<And>u' k'. files_of s' u' k' =
              (if u' = u \<and> k' = k then Some (with_status st msg f) else files_of s u' k')"
      "wf_store s \<Longrightarrow> wf_store s'"
proof (cases "files_of s u k")
  case None
  then show ?thesis using absent updateStatus_absent by blast
next
  case (Some f)
  from updateStatus_present[OF this, of st msg] obtain s' where
    "updateStatus u k st msg s = Inr s'" "client s' = client s"
    "\<forall>u' k'. files_of s' u' k' =
              (if u' = u \<and> k' = k then Some (with_status st msg f) else files_of s u' k')"
    "wf_store s \<longrightarrow> wf_store s'" by blast
  then show ?thesis using present[OF Some] by blast
qed

lemma updateFile_cases:
  obtains (absent) "getUploader u s = None" "updateFile u k patch s = Inl TypeError"
  | (present) s' where "getUploader u s \<noteq> None" "updateFile u k patch s = Inr s'"
      "client s' = client s"
      "\<And>u' k'. files_of s' u' k' =
              (if u' = u \<and> k' = k then Some (patched patch (files_of s u k)) else files_of s u' k')"
      "wf_store s \<Longrightarrow> wf_store s'"
proof (cases "getUploader u s")
  case None
  then show ?thesis using absent by (simp add: updateFile_def update_Inl_absent)
next
  case (Some up)
  let ?s' = "s\<lparr>uploaders := AList.update u (up\<lparr>files := AList.update k (patched patch (map_of (files up) k)) (files up)\<rparr>) (uploaders s)\<rparr>"
  have 1: "updateFile u k patch s = Inr ?s'"
    using Some by (simp add: updateFile_def update_def getUploader_def patched_def)
  have 2: "\<And>u' k'. files_of ?s' u' k' =
              (if u' = u \<and> k' = k then Some (patched patch (files_of s u k)) else files_of s u' k')"
    using Some by (auto simp: files_of_def update_conv')
  have 3: "wf_store s \<Longrightarrow> wf_store ?s'"
    using Some by (auto simp: wf_store_def distinct_update)
  show ?thesis using present[of ?s'] Some 1 2 3 by simp
qed

lemma status_patched: "status (patched patch (Some f)) = status f" "status (patched patch None) = None"
  by (simp_all add: patched_def)

lemma clear_cases:
  obtains (absent) "getUploader u s = None" "clear u s = Inl TypeError"
  | (present) s' where "clear u s = Inr s'" "client s' = client s"
      "\<And>u' k'. files_of s' u' k' = (if u' = u then None else files_of s u' k')"
      "wf_store s \<Longrightarrow> wf_store s'"
proof (cases "getUploader u s")
  case None
  then show ?thesis using absent by (simp add: clear_def update_Inl_absent)
next
  case (Some up)
  let ?s' = "s\<lparr>uploaders := AList.update u (up\<lparr>files := []\<rparr>) (uploaders s)\<rparr>"
  have 1: "clear u s = Inr ?s'"
    using Some by (simp add: clear_def update_def getUploader_def)
  have 2: "\<And>u' k'. files_of ?s' u' k' = (if u' = u then None else files_of s u' k')"
    by (auto simp: files_of_def)
  have 3: "wf_store s \<Longrightarrow> wf_store ?s'"
    by (auto simp: wf_store_def)
  show ?thesis using present[of ?s'] 1 2 3 by simp
qed

lemma filter_lookup_absent:
  "map_of al x = None \<Longrightarrow> map_of (filter Q al) x = None"
  by (induction al) (auto split: if_splits)

lemma filter_lookup_present:
  assumes "map_of al x = Some y" and "distinct (map fst al)"
  shows "map_of (filter Q al) x = (if Q (x, y) then Some y else None)"
  using assms
proof (induction al)
  case Nil
  then show ?case by simp
next
  case (Cons a al)
  then show ?case
    by (cases a) (auto simp: filter_lookup_absent map_of_eq_None_iff image_iff split: if_splits)
qed

lemma removeByURL_cases:
  obtains (absent) "getUploader u s = None" "removeByURL u x s = Inl TypeError"
  | (present) s' where "removeByURL u x s = Inr s'" "client s' = client s"
      "\<And>u' k'. u' \<noteq> u \<Longrightarrow> files_of s' u' k' = files_of s u' k'"
      "\<And>k'. wf_store s \<Longrightarrow> files_of s' u k' =
           (case files_of s u k' of None \<Rightarrow> None | Some f \<Rightarrow> if url f \<noteq> x then Some f else None)"
      "wf_store s \<Longrightarrow> wf_store s'"
proof (cases "getUploader u s")
  case None
  then show ?thesis using absent by (simp add: removeByURL_def update_Inl_absent)
next
  case (Some up)
  let ?s' = "s\<lparr>uploaders := AList.update u (up\<lparr>files := filter (\<lambda>(_, f). url f \<noteq> x) (files up)\<rparr>) (uploaders s)\<rparr>"
  have 1: "removeByURL u x s = Inr ?s'"
    using Some by (simp add: removeByURL_def update_def getUploader_def)
  have 2: "\<And>u' k'. u' \<noteq> u \<Longrightarrow> files_of ?s' u' k' = files_of s u' k'"
    by (auto simp: files_of_def)
  have 3: "\<And>k'. wf_store s \<Longrightarrow> files_of ?s' u k' =
           (case files_of s u k' of None \<Rightarrow> None | Some f \<Rightarrow> if url f \<noteq> x then Some f else None)"
    using Some
    by (auto simp: files_of_def wf_store_def filter_lookup_absent filter_lookup_present
          split: option.splits)
  have 4: "wf_store s \<Longrightarrow> wf_store ?s'"
    using Some by (auto simp: wf_store_def distinct_map_filter)
  show ?thesis using present[of ?s'] 1 2 3 4 by simp
qed

lemma useUploader_effect:
  assumes "prerequisites c cfg"
  shows "client (useUploader u c cfg s) = client s"
    "files_of (useUploader u c cfg s) u' k' = (if u' = u then None else files_of s u' k')"
    "wf_store s \<Longrightarrow> wf_store (useUploader u c cfg s)"
  using assms by (auto simp: useUploader_def files_of_def emptyUploader_def wf_store_def)

lemma createClient_effect:
  assumes "createClient P creds reg s = Inr s'"
  shows "files_of s' u' k' = files_of s u' k'" "wf_store s \<Longrightarrow> wf_store s'"
  using assms
  by (auto simp: createClient_def files_of_def getUploader_def wf_store_def split: option.splits)

subsection \<open>assign\<close>

lemma assign_Cons: "assign dst ((k, v) # src) = assign (AList.update k v dst) src"
  by (simp add: assign_def)

lemma assign_Nil [simp]: "assign dst [] = dst"
  by (simp add: assign_def)

lemma distinct_assign: "distinct (map fst dst) \<Longrightarrow> distinct (map fst (assign dst src))"
  by (induction src arbitrary: dst) (auto simp: assign_Cons distinct_update)

lemma update_key_set: "fst ` set (AList.update k v al) = insert k (fst ` set al)"
  by (induction al) auto

lemma assign_keys: "fst ` set (assign dst src) = fst ` set dst \<union> fst ` set src"
proof (induction src arbitrary: dst)
  case Nil
  then show ?case by simp
next
  case (Cons a src)
  obtain k0 v0 where a: "a = (k0, v0)" by (cases a)
  show ?case
    unfolding a assign_Cons Cons.IH update_key_set by auto
qed

lemma map_of_assign_other:
  "k \<notin> fst ` set src \<Longrightarrow> map_of (assign dst src) k = map_of dst k"
  by (induction src arbitrary: dst) (auto simp: assign_Cons update_conv')

lemma map_of_assign_new:
  "k \<in> fst ` set src \<Longrightarrow> \<exists>v. map_of (assign dst src) k = Some v \<and> (k, v) \<in> set src"
proof (induction src arbitrary: dst)
  case Nil
  then show ?case by simp
next
  case (Cons a src)
  obtain k0 v0 where a: "a = (k0, v0)" by (cases a)
  show ?case
  proof (cases "k \<in> fst ` set src")
    case True
    from Cons.IH[OF True, of "AList.update k0 v0 dst"] show ?thesis
      by (auto simp: a assign_Cons)
  next
    case False
    with Cons.prems have "k = k0" by (auto simp: a)
    with False show ?thesis
      by (simp add: a assign_Cons map_of_assign_other update_conv')
  qed
qed

lemma keyBy_sub: "set (keyBy xs) \<subseteq> set xs"
proof
  fix p assume p: "p \<in> set (keyBy xs)"
  obtain k v where kv: "p = (k, v)" by (cases p)
  have d: "distinct (map fst (keyBy xs))" by (simp add: keyBy_def distinct_assign)
  have "k \<in> fst ` set xs" using p kv assign_keys[of "[]" xs] by (force simp: keyBy_def)
  from map_of_assign_new[OF this, of "[]"] obtain v' where
    "map_of (keyBy xs) k = Some v'" "(k, v') \<in> set xs" by (auto simp: keyBy_def)
  moreover have "map_of (keyBy xs) k = Some v" using d p kv by simp
  ultimately show "p \<in> set xs" using kv by simp
qed

lemma keyBy_keys: "fst ` set (keyBy xs) = fst ` set xs"
  using assign_keys[of "[]" xs] by (simp add: keyBy_def)

lemma seed_cases:
  fixes new :: "(string \<times> FileUpload) list"
  obtains (absent) "getUploader u s = None"
      "update u (\<lambda>draft. Inr (draft\<lparr>files := assign (files draft) (keyBy new)\<rparr>)) s = Inl TypeError"
  | (present) s' where
      "update u (\<lambda>draft. Inr (draft\<lparr>files := assign (files draft) (keyBy new)\<rparr>)) s = Inr s'"
      "client s' = client s"
      "\<And>u' k'. u' \<noteq> u \<or> k' \<notin> fst ` set new \<Longrightarrow> files_of s' u' k' = files_of s u' k'"
      "\<And>k'. k' \<in> fst ` set new \<Longrightarrow> \<exists>v. files_of s' u k' = Some v \<and> (k', v) \<in> set new"
      "wf_store s \<Longrightarrow> wf_store s'"
proof (cases "getUploader u s")
  case None
  then show ?thesis using absent by (simp add: update_Inl_absent)
next
  case (Some up)
  let ?s' = "s\<lparr>uploaders := AList.update u (up\<lparr>files := assign (files up) (keyBy new)\<rparr>) (uploaders s)\<rparr>"
  have 1: "update u (\<lambda>draft. Inr (draft\<lparr>files := assign (files draft) (keyBy new)\<rparr>)) s = Inr ?s'"
    using Some by (simp add: update_def getUploader_def)
  have 2: "\<And>u' k'. u' \<noteq> u \<or> k' \<notin> fst ` set new \<Longrightarrow> files_of ?s' u' k' = files_of s u' k'"
    using Some by (auto simp: files_of_def map_of_assign_other keyBy_keys)
  have 3: "\<And>k'. k' \<in> fst ` set new \<Longrightarrow> \<exists>v. files_of ?s' u k' = Some v \<and> (k', v) \<in> set new"
  proof -
    fix k' assume "k' \<in> fst ` set new"
    then have "k' \<in> fst ` set (keyBy new)" by (simp add: keyBy_keys)
    from map_of_assign_new[OF this, of "files up"] keyBy_sub[of new]
    show "\<exists>v. files_of ?s' u k' = Some v \<and> (k', v) \<in> set new"
      by (auto simp: files_of_def)
  qed
  have 4: "wf_store s \<Longrightarrow> wf_store ?s'"
    using Some by (auto simp: wf_store_def distinct_assign)
  show ?thesis using present[of ?s'] 1 2 3 4 by simp
qed

lemma remdups_adj_snoc:
  "remdups_adj (xs @ [x]) =
     (if xs \<noteq> [] \<and> last xs = x then remdups_adj xs else remdups_adj xs @ [x])"
  by (induction xs rule: remdups_adj.induct) auto

lemma last_remdups_adj' : "xs \<noteq> [] \<Longrightarrow> last (remdups_adj xs) = last xs"
  by (induction xs rule: remdups_adj.induct) auto

lemma map_filter_snoc:
  "List.map_filter f (xs @ [x]) =
     List.map_filter f xs @ (case f x of None \<Rightarrow> [] | Some y \<Rightarrow> [y])"
  by (auto simp: List.map_filter_def split: option.splits)

lemma status_trace_set_store:
  "status_trace (set_store s w) u k =
     (case status_of s u k of
        None \<Rightarrow> status_trace w u k
      | Some st \<Rightarrow>
          if status_trace w u k \<noteq> [] \<and> last (status_trace w u k) = st
          then status_trace w u k else status_trace w u k @ [st])"
proof (cases "status_of s u k")
  case None
  then show ?thesis by (simp add: status_trace_def set_store_def map_filter_snoc)
next
  case (Some st)
  let ?xs = "List.map_filter (\<lambda>s. status_of s u k) (seen w)"
  have "status_trace (set_store s w) u k = remdups_adj (?xs @ [st])"
    using Some by (simp add: status_trace_def set_store_def map_filter_snoc)
  then show ?thesis
    using Some by (auto simp: remdups_adj_snoc status_trace_def last_remdups_adj')
qed

lemma set_store_simps [simp]:
  "store (set_store s w) = s" "tasks (set_store s w) = tasks w"
  "unhandled (set_store s w) = unhandled w" "seen (set_store s w) = seen w @ [s]"
  by (simp_all add: set_store_def)

lemma reject_simps [simp]:
  "store (reject w) = store w" "tasks (reject w) = tasks w"
  "unhandled (reject w) = Suc (unhandled w)" "seen (reject w) = seen w"
  by (simp_all add: reject_def)

lemma status_trace_cong: "seen w' = seen w \<Longrightarrow> status_trace w' u k = status_trace w u k"
  by (simp add: status_trace_def)

subsection \<open>The invariant is kept\<close>

lemma invI: "wf_store (store w) \<Longrightarrow> (\<And>k. key_inv G Q w u k) \<Longrightarrow> inv G Q w u"
  by (simp add: inv_def)

lemma invD: "inv G Q w u \<Longrightarrow> wf_store (store w)" "inv G Q w u \<Longrightarrow> key_inv G Q w u k"
  by (simp_all add: inv_def)

text \<open>A key whose record, trace and tasks are what they were keeps its invariant.\<close>

lemma key_inv_same:
  assumes "key_inv G Q w u k"
    and "status_trace w' u k = status_trace w u k"
    and "files_of (store w') u k = files_of (store w) u k"
    and "key_tasks w' u k = key_tasks w u k"
    and "G \<subseteq> G'" "Q' \<subseteq> Q"
  shows "key_inv G' Q' w' u k"
  using assms unfolding key_inv_def status_of_def by (auto split: if_splits)

lemma trace_stutter:
  assumes "key_inv G Q w u k" "status_of s u k = status_of (store w) u k"
  shows "status_trace (set_store s w) u k = status_trace w u k"
  using assms by (auto simp: status_trace_set_store key_inv_def split: option.splits)

lemma trace_none:
  assumes "status_of s u k = None"
  shows "status_trace (set_store s w) u k = status_trace w u k"
  using assms by (auto simp: status_trace_set_store split: option.splits)

lemma status_of_files_of: "files_of s u k = files_of s' u k \<Longrightarrow> status_of s u k = status_of s' u k"
  by (simp add: status_of_def)

lemma key_tasks_set_store [simp]: "key_tasks (set_store s w) u k = key_tasks w u k"
  by (simp add: key_tasks_def)

lemma key_tasks_reject [simp]: "key_tasks (reject w) u k = key_tasks w u k"
  by (simp add: key_tasks_def)

lemma status_trace_reject [simp]: "status_trace (reject w) u k = status_trace w u k"
  by (simp add: status_trace_def)

lemma inv_reject: "inv G Q w u \<Longrightarrow> inv G Q (reject w) u"
  by (auto simp: inv_def intro: key_inv_same)

text \<open>A record that disappears (clear, removeByURL, a fresh uploader).\<close>

lemma key_inv_dropped:
  assumes "key_inv G Q w u k" "k \<notin> Q"
    and "files_of s u k = None"
  shows "key_inv G Q (set_store s w) u k"
  using assms unfolding key_inv_def
  by (auto simp: trace_none status_of_def split: if_splits)

lemma inv_publish_drop:
  assumes "inv G {} w u" "wf_store s"
    and "\<And>k. files_of s u k = None \<or> files_of s u k = files_of (store w) u k"
  shows "inv G {} (set_store s w) u"
proof (rule invI)
  show "wf_store (store (set_store s w))" using assms(2) by simp
next
  fix k
  from assms(3)[of k] show "key_inv G {} (set_store s w) u k"
  proof
    assume "files_of s u k = None"
    then show ?thesis using key_inv_dropped[OF invD(2)[OF assms(1)]] by simp
  next
    assume e: "files_of s u k = files_of (store w) u k"
    show ?thesis
      by (rule key_inv_same[OF invD(2)[OF assms(1)]])
         (simp_all add: trace_stutter[OF invD(2)[OF assms(1)]] status_of_files_of[OF e] e)
  qed
qed

lemma inv_call:
  assumes "inv G {} w u"
    and "\<And>s'. f (store w) = Inr s' \<Longrightarrow> wf_store s' \<and>
           (\<forall>k. files_of s' u k = None \<or> files_of s' u k = files_of (store w) u k)"
  shows "inv G {} (call f w) u"
  using assms inv_publish_drop[OF assms(1)]
  by (auto simp: call_def split: sum.splits)

lemma inv_createClient: "inv G {} w u \<Longrightarrow> inv G {} (call (createClient P creds reg) w) u"
  by (rule inv_call) (auto dest: createClient_effect invD(1))

lemma inv_clear: "inv G {} w u \<Longrightarrow> inv G {} (call (clear u') w) u"
proof (rule inv_call, assumption)
  fix s' assume i: "inv G {} w u" and c: "clear u' (store w) = Inr s'"
  show "wf_store s' \<and> (\<forall>k. files_of s' u k = None \<or> files_of s' u k = files_of (store w) u k)"
    using c invD(1)[OF i] by (cases rule: clear_cases[of u' "store w"]) auto
qed

lemma removeByURL_frame:
  assumes "removeByURL u' x s = Inr s'" "wf_store s"
  shows "wf_store s' \<and> (\<forall>u k. files_of s' u k = None \<or> files_of s' u k = files_of s u k)"
proof (cases rule: removeByURL_cases[of u' s x])
  case absent
  then show ?thesis using assms by simp
next
  case (present s'')
  then have e: "s'' = s'" using assms by simp
  have "files_of s' u k = None \<or> files_of s' u k = files_of s u k" for u k
  proof (cases "u = u'")
    case True
    then show ?thesis using present(4)[OF assms(2), of k] e by (auto split: option.splits)
  next
    case False
    then show ?thesis using present(3)[of u k] e by simp
  qed
  then show ?thesis using present(5)[OF assms(2)] e by simp
qed

lemma inv_removeByURL: "inv G {} w u \<Longrightarrow> inv G {} (call (removeByURL u' x) w) u"
proof (rule inv_call, assumption)
  fix s' assume i: "inv G {} w u" and c: "removeByURL u' x (store w) = Inr s'"
  show "wf_store s' \<and> (\<forall>k. files_of s' u k = None \<or> files_of s' u k = files_of (store w) u k)"
    using removeByURL_frame[OF c invD(1)[OF i]] by simp
qed

lemma inv_useUploader:
  assumes "inv G {} w u"
  shows "inv G {} (step P (UseUploader u' cfg) w) u"
proof (cases "prerequisites (client (store w)) cfg")
  case True
  have "inv G {} (set_store (useUploader u' (client (store w)) cfg (store w)) w) u"
    using useUploader_effect[OF True] invD(1)[OF assms]
    by (intro inv_publish_drop[OF assms]) auto
  then show ?thesis using True by simp
next
  case False
  then show ?thesis using assms by simp
qed

subsection \<open>Worlds described by their store, history and pending tasks\<close>

lemma status_trace_snoc:
  assumes "seen w' = seen w @ [s]"
  shows "status_trace w' u k =
     (case status_of s u k of
        None \<Rightarrow> status_trace w u k
      | Some st \<Rightarrow>
          if status_trace w u k \<noteq> [] \<and> last (status_trace w u k) = st
          then status_trace w u k else status_trace w u k @ [st])"
proof -
  have "status_trace w' u k = status_trace (set_store s w) u k"
    using assms by (simp add: status_trace_def)
  then show ?thesis by (simp add: status_trace_set_store)
qed

lemma key_inv_keep:
  assumes "key_inv G Q w u k"
    and "seen w' = seen w \<or> seen w' = seen w @ [store w']"
    and "files_of (store w') u k = files_of (store w) u k"
    and "key_tasks w' u k = key_tasks w u k"
    and "k \<in> G \<longrightarrow> k \<in> G'" "k \<in> Q' \<longrightarrow> k \<in> Q"
  shows "key_inv G' Q' w' u k"
proof -
  have so: "status_of (store w') u k = status_of (store w) u k"
    using assms(3) by (simp add: status_of_def)
  have "status_trace w' u k = status_trace w u k"
    using assms(2)
  proof
    assume "seen w' = seen w"
    then show ?thesis by (simp add: status_trace_def)
  next
    assume "seen w' = seen w @ [store w']"
    from status_trace_snoc[OF this, of u k] so assms(1) show ?thesis
      by (auto simp: key_inv_def split: option.splits)
  qed
  with assms so show ?thesis
    unfolding key_inv_def by (auto split: if_splits)
qed

lemma key_tasks_append:
  "tasks w' = tasks w @ ts \<Longrightarrow>
     key_tasks w' u k = key_tasks w u k @ filter (\<lambda>t. target t = (u, k)) ts"
  by (simp add: key_tasks_def)

lemma key_tasks_remove:
  assumes "i < length (tasks w)" "tasks w' = take i (tasks w) @ drop (Suc i) (tasks w)"
  shows "target (tasks w ! i) \<noteq> (u, k) \<Longrightarrow> key_tasks w' u k = key_tasks w u k"
    and "target (tasks w ! i) = (u, k) \<Longrightarrow> length (key_tasks w u k) \<le> 1 \<Longrightarrow>
           key_tasks w' u k = [] \<and> key_tasks w u k = [tasks w ! i]"
proof -
  let ?P = "\<lambda>t. target t = (u, k)"
  have split: "tasks w = take i (tasks w) @ tasks w ! i # drop (Suc i) (tasks w)"
    using assms(1) by (rule id_take_nth_drop)
  have f: "filter ?P (tasks w) =
             filter ?P (take i (tasks w)) @ filter ?P [tasks w ! i] @ filter ?P (drop (Suc i) (tasks w))"
    by (subst split) simp
  show "target (tasks w ! i) \<noteq> (u, k) \<Longrightarrow> key_tasks w' u k = key_tasks w u k"
    using f assms(2) by (simp add: key_tasks_def)
  assume t: "target (tasks w ! i) = (u, k)" and l: "length (key_tasks w u k) \<le> 1"
  from l f t have "filter ?P (take i (tasks w)) = [] \<and> filter ?P (drop (Suc i) (tasks w)) = []"
    by (simp add: key_tasks_def)
  then show "key_tasks w' u k = [] \<and> key_tasks w u k = [tasks w ! i]"
    using f t assms(2) by (simp add: key_tasks_def)
qed

lemma inv_remove:
  assumes "inv G Q w u" "i < length (tasks w)"
    and "store w' = store w" "seen w' = seen w"
    and "tasks w' = take i (tasks w) @ drop (Suc i) (tasks w)"
  shows "inv G Q w' u"
    and "target (tasks w ! i) = (u, k) \<Longrightarrow> is_dispatch (tasks w ! i) \<Longrightarrow> ready_dispatch w' u k"
    and "target (tasks w ! i) = (u, k) \<Longrightarrow> \<not> is_dispatch (tasks w ! i) \<Longrightarrow> ready_size w' u k"
proof -
  have tr: "status_trace w' u k = status_trace w u k" for k
    using assms(4) by (simp add: status_trace_def)
  show "inv G Q w' u"
  proof (rule invI)
    show "wf_store (store w')" using assms(1,3) by (simp add: inv_def)
  next
    fix k
    have ki: "key_inv G Q w u k" using assms(1) by (rule invD)
    show "key_inv G Q w' u k"
    proof (cases "target (tasks w ! i) = (u, k)")
      case False
      from key_tasks_remove(1)[OF assms(2,5) False] show ?thesis
        by (intro key_inv_keep[OF ki]) (simp_all add: assms)
    next
      case True
      from ki have "length (key_tasks w u k) \<le> 1" by (simp add: key_inv_def)
      from key_tasks_remove(2)[OF assms(2,5) True this] have "key_tasks w' u k = []" by simp
      with ki show ?thesis
        unfolding key_inv_def by (auto simp: tr assms(3))
    qed
  qed
  {
    assume True: "target (tasks w ! i) = (u, k)"
    have ki: "key_inv G Q w u k" using assms(1) by (rule invD)
    then have "length (key_tasks w u k) \<le> 1" by (simp add: key_inv_def)
    from key_tasks_remove(2)[OF assms(2,5) True this]
    have kt: "key_tasks w' u k = []" "tasks w ! i \<in> set (key_tasks w u k)" by simp_all
    show "is_dispatch (tasks w ! i) \<Longrightarrow> ready_dispatch w' u k"
      using ki kt unfolding key_inv_def ready_dispatch_def
      by (auto simp: tr assms(3))
    show "\<not> is_dispatch (tasks w ! i) \<Longrightarrow> ready_size w' u k"
      using ki kt unfolding key_inv_def ready_size_def
      by (auto simp: tr assms(3))
  }
qed

lemma status_with_status [simp]: "status (with_status st msg f) = Some st"
  by (simp add: with_status_def)

text \<open>A status write to a record in flight.\<close>

lemma inv_set_status:
  assumes i: "inv G {} w u"
    and r: "u' = u \<longrightarrow> ready_dispatch w u k'"
    and st: "st = success \<or> st = error"
    and upd: "updateStatus u' k' st msg (store w) = Inr s'"
    and w': "store w' = s'" "seen w' = seen w @ [s']"
    and ts: "tasks w' = tasks w @ (if st = success then [ImageSize u' k' x] else [])"
  shows "inv G {} w' u"
proof (cases rule: updateStatus_cases[of "store w" u' k' st msg])
  case absent
  then show ?thesis using upd by simp
next
  case (present f s'')
  then have e: "s'' = s'" using upd by simp
  show ?thesis
  proof (rule invI)
    show "wf_store (store w')" using present(5) e w' invD(1)[OF i] by simp
  next
    fix k
    have ki: "key_inv G {} w u k" using i by (rule invD)
    show "key_inv G {} w' u k"
    proof (cases "u' = u \<and> k' = k")
      case False
      then have "key_tasks w' u k = key_tasks w u k"
        using key_tasks_append[OF ts, of u k] by auto
      moreover have "files_of (store w') u k = files_of (store w) u k"
        using False present(4)[of u k] e w' by auto
      ultimately show ?thesis
        using w' by (intro key_inv_keep[OF ki]) simp_all
    next
      case True
      with r have rd: "ready_dispatch w u k" by simp
      have fo: "files_of (store w') u k = Some (with_status st msg f)"
        using True present(4)[of u k] e w' by simp
      then have so: "status_of (store w') u k = Some st" by (simp add: status_of_def)
      have "status_of (store w) u k = Some loading"
        using rd present(1) True by (auto simp: ready_dispatch_def)
      have tr: "status_trace w' u k = [initial, loading, st]"
        using status_trace_snoc[OF w'(2), of u k] so rd st w'(1) e
        by (auto simp: ready_dispatch_def)
      have kt: "key_tasks w' u k = (if st = success then [ImageSize u' k' x] else [])"
        using key_tasks_append[OF ts, of u k] rd True by (auto simp: ready_dispatch_def)
      have "k \<in> G" using ki rd by (auto simp: key_inv_def ready_dispatch_def)
      then show ?thesis
        using st tr so kt fo unfolding key_inv_def lifecycle_def by auto
    qed
  qed
qed

lemma inv_catch_error:
  assumes "inv G {} w u" "u' = u \<longrightarrow> ready_dispatch w u k'"
  shows "inv G {} (catch_error u' k' msg w) u"
proof (cases "updateStatus u' k' error (Some msg) (store w)")
  case (Inl e)
  then show ?thesis using assms(1) by (simp add: catch_error_def inv_reject)
next
  case (Inr s')
  have "inv G {} (set_store s' w) u"
    by (rule inv_set_status[OF assms _ Inr, of _ "[]"]) simp_all
  then show ?thesis using Inr by (simp add: catch_error_def)
qed

lemma inv_then_success:
  assumes "inv G {} w u" "u' = u \<longrightarrow> ready_dispatch w u k'"
    and "then_success u' k' x w = Inr w'"
  shows "inv G {} w' u"
proof (cases "updateStatus u' k' success None (store w)")
  case (Inl e)
  then show ?thesis using assms(3) by (simp add: then_success_def)
next
  case (Inr s')
  then have "w' = (set_store s' w)\<lparr>tasks := tasks w @ [ImageSize u' k' x]\<rparr>"
    using assms(3) by (simp add: then_success_def)
  then show ?thesis
    by (intro inv_set_status[OF assms(1,2) _ Inr, of w' x]) simp_all
qed

lemma inv_settle_presigned:
  assumes "inv G {} w u" "u' = u \<longrightarrow> ready_dispatch w u k'"
  shows "inv G {} (settle_presigned u' k' token put get w) u"
  using assms
  by (auto simp: settle_presigned_def inv_reject inv_catch_error inv_then_success
           split: settled.splits sum.splits)

lemma inv_settle_send:
  assumes "inv G {} w u" "u' = u \<longrightarrow> ready_dispatch w u k'"
  shows "inv G {} (settle_send u' k' base signed sent w) u"
  using assms
  by (auto simp: settle_send_def inv_reject inv_catch_error inv_then_success
           split: settled.splits sum.splits option.splits)

lemma inv_settle_size:
  assumes i: "inv G {} w u" and r: "u' = u \<longrightarrow> ready_size w u k'"
  shows "inv G {} (settle_size u' k' x measured w) u"
proof (cases measured)
  case (Rejected m)
  then show ?thesis using i by (simp add: settle_size_def inv_reject)
next
  case (Resolved sz)
  show ?thesis
  proof (cases rule: updateFile_cases[of u' "store w" k' "(sz, x)"])
    case absent
    then show ?thesis using i Resolved by (simp add: settle_size_def inv_reject)
  next
    case (present s')
    have "inv G {} (set_store s' w) u"
    proof (rule invI)
      show "wf_store (store (set_store s' w))" using present(5) invD(1)[OF i] by simp
    next
      fix k
      have ki: "key_inv G {} w u k" using i by (rule invD)
      show "key_inv G {} (set_store s' w) u k"
      proof (cases "u' = u \<and> k' = k")
        case False
        then have "files_of (store (set_store s' w)) u k = files_of (store w) u k"
          using present(4)[of u k] by auto
        then show ?thesis
          by (intro key_inv_keep[OF ki]) simp_all
      next
        case True
        with r have rs: "ready_size w u k" by simp
        have fo: "files_of s' u k = Some (patched (sz, x) (files_of (store w) u k))"
          using True present(4)[of u k] by simp
        have so: "status_of s' u k = status_of (store w) u k"
          using fo by (cases "files_of (store w) u k") (simp_all add: status_of_def status_patched)
        have tr: "status_trace (set_store s' w) u k = status_trace w u k"
          using trace_stutter[OF ki so] .
        have "k \<in> G" using ki rs by (auto simp: key_inv_def ready_size_def)
        then show ?thesis
          using ki rs tr so unfolding key_inv_def ready_size_def by auto
      qed
    qed
    then show ?thesis using present(2) Resolved by (simp add: settle_size_def)
  qed
qed

lemma inv_settle:
  assumes i: "inv G {} w u"
  shows "inv G {} (settle n out w) u"
proof (cases "n < length (tasks w)")
  case False
  then show ?thesis using i by (simp add: settle_def)
next
  case True
  let ?w = "w\<lparr>tasks := take n (tasks w) @ drop (Suc n) (tasks w)\<rparr>"
  note rm = inv_remove[OF i True, of ?w, simplified]
  show ?thesis
  proof (cases "run_task (tasks w ! n) out ?w")
    case None
    then show ?thesis using i True by (simp add: settle_def)
  next
    case (Some w')
    have "inv G {} w' u"
    proof (cases "tasks w ! n")
      case (PresignedPut u' k' x)
      then obtain token put get where o: "out = Presigned token put get"
        using Some by (cases out) auto
      have "u' = u \<longrightarrow> ready_dispatch ?w u k'"
        using rm(2)[of k'] PresignedPut by auto
      from inv_settle_presigned[OF rm(1) this, of token put get] show ?thesis
        using Some PresignedPut o by simp
    next
      case (Send u' k' base)
      then obtain signed sent where o: "out = Sent signed sent"
        using Some by (cases out) auto
      have "u' = u \<longrightarrow> ready_dispatch ?w u k'"
        using rm(2)[of k'] Send by auto
      from inv_settle_send[OF rm(1) this, of base signed sent] show ?thesis
        using Some Send o by simp
    next
      case (ImageSize u' k' x)
      then obtain measured where o: "out = Measured measured"
        using Some by (cases out) auto
      have "u' = u \<longrightarrow> ready_size ?w u k'"
        using rm(3)[of k'] ImageSize by auto
      from inv_settle_size[OF rm(1) this, of x measured] show ?thesis
        using Some ImageSize o by simp
    qed
    then show ?thesis using Some True by (simp add: settle_def)
  qed
qed

subsection \<open>Submission\<close>

lemma inv_seed:
  fixes new :: "(string \<times> FileUpload) list"
  assumes i: "inv G {} w u"
    and upd: "update u' (\<lambda>draft. Inr (draft\<lparr>files := assign (files draft) (keyBy new)\<rparr>)) (store w) = Inr s'"
    and fresh: "u' = u \<longrightarrow> fst ` set new \<inter> G = {}"
    and init: "\<forall>(k, r) \<in> set new. status r = Some initial"
    and K: "K = (if u' = u then fst ` set new else {})"
  shows "inv (G \<union> K) K (set_store s' w) u"
proof (cases rule: seed_cases[of u' "store w" new])
  case absent
  then show ?thesis using upd by simp
next
  case (present s'')
  then have e: "s'' = s'" using upd by simp
  show ?thesis
  proof (rule invI)
    show "wf_store (store (set_store s' w))" using present(5) e invD(1)[OF i] by simp
  next
    fix k
    have ki: "key_inv G {} w u k" using i by (rule invD)
    show "key_inv (G \<union> K) K (set_store s' w) u k"
    proof (cases "k \<in> K")
      case False
      then have "files_of (store (set_store s' w)) u k = files_of (store w) u k"
        using present(3)[of u k] e K by (auto split: if_splits)
      then show ?thesis
        using False by (intro key_inv_keep[OF ki]) simp_all
    next
      case True
      then have u: "u' = u" and kn: "k \<in> fst ` set new" using K by (auto split: if_splits)
      with fresh have "k \<notin> G" by auto
      with ki have old: "status_trace w u k = []" "key_tasks w u k = []"
        by (simp_all add: key_inv_def)
      from present(4)[OF kn] obtain v where v: "files_of s' u k = Some v" "(k, v) \<in> set new"
        using e u by auto
      with init have so: "status_of s' u k = Some initial"
        by (auto simp: status_of_def)
      have tr: "status_trace (set_store s' w) u k = [initial]"
        using old so by (simp add: status_trace_set_store)
      show ?thesis
        using tr so old True unfolding key_inv_def lifecycle_def by simp
    qed
  qed
qed

lemma upload_cases:
  obtains (absent) "files_of (store w) u' k' = None" "upload P u' k' cfg w = reject w"
  | (present) f s' ts where "files_of (store w) u' k' = Some f"
      "updateStatus u' k' loading None (store w) = Inr s'"
      "store (upload P u' k' cfg w) = s'"
      "seen (upload P u' k' cfg w) = seen w @ [s']"
      "tasks (upload P u' k' cfg w) = tasks w @ ts"
      "ts = [] \<or> (\<exists>t. ts = [t] \<and> is_dispatch t \<and> target t = (u', k'))"
proof (cases rule: updateStatus_cases[of "store w" u' k' loading None])
  case absent
  then show ?thesis using that(1) by (simp add: upload_def)
next
  case (present f s')
  let ?w' = "upload P u' k' cfg w"
  have "store ?w' = s' \<and> seen ?w' = seen w @ [s'] \<and>
        (\<exists>ts. tasks ?w' = tasks w @ ts \<and>
           (ts = [] \<or> (\<exists>t. ts = [t] \<and> is_dispatch t \<and> target t = (u', k'))))"
    using present(2)
    by (cases "service cfg") (auto simp: upload_def Let_def split: option.splits)
  then show ?thesis using that(2)[OF present(1,2)] by blast
qed

lemma inv_upload:
  assumes i: "inv G Q w u" and q: "u' = u \<longrightarrow> k' \<in> Q"
    and Q': "Q' = (if u' = u then Q - {k'} else Q)"
  shows "inv G Q' (upload P u' k' cfg w) u"
proof (cases rule: upload_cases[of w u' k' P cfg])
  case absent
  have "u' \<noteq> u"
  proof
    assume "u' = u"
    with q invD(2)[OF i, of k'] absent(1) show False
      by (auto simp: key_inv_def status_of_def)
  qed
  then show ?thesis using absent(2) i Q' by (simp add: inv_reject)
next
  case (present f s' ts)
  let ?w' = "upload P u' k' cfg w"
  show ?thesis
  proof (cases rule: updateStatus_cases[of "store w" u' k' loading None])
    case absent
    then show ?thesis using present(2) by simp
  next
    case (present f' s'')
    then have e: "s'' = s'" "f' = f" using \<open>updateStatus u' k' loading None (store w) = Inr s'\<close>
        \<open>files_of (store w) u' k' = Some f\<close> by simp_all
    note p = \<open>store ?w' = s'\<close> \<open>seen ?w' = seen w @ [s']\<close> \<open>tasks ?w' = tasks w @ ts\<close>
      \<open>ts = [] \<or> (\<exists>t. ts = [t] \<and> is_dispatch t \<and> target t = (u', k'))\<close>
    show ?thesis
    proof (rule invI)
      show "wf_store (store ?w')" using present(5) e p(1) invD(1)[OF i] by simp
    next
      fix k
      have ki: "key_inv G Q w u k" using i by (rule invD)
      show "key_inv G Q' ?w' u k"
      proof (cases "u' = u \<and> k' = k")
        case False
        then have "key_tasks ?w' u k = key_tasks w u k"
          using key_tasks_append[OF p(3), of u k] p(4) by auto
        moreover have "files_of (store ?w') u k = files_of (store w) u k"
          using False present(4)[of u k] e p(1) by auto
        ultimately show ?thesis
          using p(1,2) Q' by (intro key_inv_keep[OF ki]) (auto split: if_splits)
      next
        case True
        with q have kq: "k \<in> Q" by simp
        with ki have old: "status_trace w u k = [initial]" "key_tasks w u k = []"
          by (simp_all add: key_inv_def)
        have fo: "files_of (store ?w') u k = Some (with_status loading None f)"
          using True present(4)[of u k] e p(1) by simp
        then have so: "status_of (store ?w') u k = Some loading" by (simp add: status_of_def)
        have tr: "status_trace ?w' u k = [initial, loading]"
          using status_trace_snoc[OF p(2), of u k] so old p(1) by simp
        have kt: "key_tasks ?w' u k = ts"
          using key_tasks_append[OF p(3), of u k] old True p(4) by auto
        have "k \<in> G" using ki old by (auto simp: key_inv_def)
        moreover have "k \<notin> Q'" using Q' True by simp
        ultimately show ?thesis
          using tr so kt fo p(4) True unfolding key_inv_def lifecycle_def by auto
      qed
    qed
  qed
qed

lemma inv_fold_upload:
  assumes "inv G Q w u"
    and "u' = u \<longrightarrow> distinct (map fst fl) \<and> set (map fst fl) \<subseteq> Q"
  shows "inv G (if u' = u then Q - set (map fst fl) else Q)
           (fold (\<lambda>(k, f). upload P u' k cfg) fl w) u"
  using assms
proof (induction fl arbitrary: w Q)
  case Nil
  then show ?case by simp
next
  case (Cons a fl)
  obtain k f where a: "a = (k, f)" by (cases a)
  let ?Q = "if u' = u then Q - {k} else Q"
  have 1: "inv G ?Q (upload P u' k cfg w) u"
    using Cons.prems a by (intro inv_upload) auto
  have 2: "u' = u \<longrightarrow> distinct (map fst fl) \<and> set (map fst fl) \<subseteq> ?Q"
    using Cons.prems(2) a by auto
  from Cons.IH[OF 1 2] have "inv G (if u' = u then ?Q - set (map fst fl) else ?Q)
      (fold (\<lambda>(k, f). upload P u' k cfg) fl (upload P u' k cfg w)) u" .
  moreover have "(if u' = u then ?Q - set (map fst fl) else ?Q) =
                 (if u' = u then Q - set (map fst (a # fl)) else Q)"
    using a by auto
  ultimately show ?case using a by simp
qed

lemma fileList_initial: "\<forall>(k, r) \<in> set (fileList P fs). status r = Some initial"
  by (auto simp: fileList_def)

lemma inv_uploadFiles:
  assumes i: "inv G {} w u"
    and d: "u' = u \<longrightarrow> distinct (map fst (fileList P fs)) \<and> set (map fst (fileList P fs)) \<inter> G = {}"
    and r: "uploadFiles P u' (Some fs) cfg w = Inr w'"
  shows "inv (G \<union> (if u' = u then set (map fst (fileList P fs)) else {})) {} w' u"
proof -
  let ?fl = "fileList P fs"
  let ?K = "if u' = u then fst ` set ?fl else {}"
  from r obtain s' where
    s': "update u' (\<lambda>draft. Inr (draft\<lparr>files := assign (files draft) (keyBy ?fl)\<rparr>)) (store w) = Inr s'"
    and w': "w' = fold (\<lambda>(k, f). upload P u' k cfg) ?fl (set_store s' w)"
    by (auto simp: uploadFiles_def Let_def split: sum.splits)
  have 1: "inv (G \<union> ?K) ?K (set_store s' w) u"
    using d by (intro inv_seed[OF i s' _ fileList_initial]) auto
  have 2: "u' = u \<longrightarrow> distinct (map fst ?fl) \<and> set (map fst ?fl) \<subseteq> ?K"
    using d by auto
  from inv_fold_upload[OF 1 2, of P cfg] show ?thesis
    unfolding w' by (auto split: if_splits)
qed

lemma inv_mono: "inv G {} w u \<Longrightarrow> inv (G \<union> G') {} w u"
  by (auto simp: inv_def intro: key_inv_keep)

lemma inv_step:
  assumes i: "inv G {} w u"
    and d: "distinct (event_keys P u e)" "set (event_keys P u e) \<inter> G = {}"
  shows "inv (G \<union> set (event_keys P u e)) {} (step P e w) u"
proof (cases e)
  case (CreateClient creds reg)
  then show ?thesis using inv_createClient[OF i] by simp
next
  case (UseUploader u' cfg)
  then show ?thesis using inv_useUploader[OF i] by simp
next
  case (UploadFiles u' fs cfg)
  show ?thesis
  proof (cases fs)
    case None
    then show ?thesis using i UploadFiles by (simp add: uploadFiles_def)
  next
    case (Some fs')
    show ?thesis
    proof (cases "uploadFiles P u' (Some fs') cfg w")
      case (Inl a)
      then show ?thesis using inv_mono[OF i] UploadFiles Some by simp
    next
      case (Inr w')
      from inv_uploadFiles[OF i _ Inr] d UploadFiles Some Inr
      show ?thesis by (auto split: if_splits)
    qed
  qed
next
  case (Clear u')
  then show ?thesis using inv_clear[OF i] by simp
next
  case (RemoveByURL u' x)
  then show ?thesis using inv_removeByURL[OF i] by simp
next
  case (Settle n out)
  then show ?thesis using inv_settle[OF i] by simp
qed

lemma inv_world0: "inv {} {} world0 u"
  by (auto simp: inv_def key_inv_def world0_def store0_def wf_store_def getUploader_def
        status_trace_def status_of_def files_of_def key_tasks_def lifecycle_def
        List.map_filter_def)

lemma inv_run:
  assumes "distinct (generated P u evs)"
  shows "inv (set (generated P u evs)) {} (run P evs world0) u"
  using assms
proof (induction evs rule: rev_induct)
  case Nil
  then show ?case by (simp add: run_def generated_def inv_world0)
next
  case (snoc e evs)
  from snoc.prems have d: "distinct (generated P u evs)" "distinct (event_keys P u e)"
    "set (event_keys P u e) \<inter> set (generated P u evs) = {}"
    by (auto simp: generated_def)
  from inv_step[OF snoc.IH[OF d(1)] d(2,3)] show ?case
    by (simp add: run_def generated_def Un_commute)
qed

text \<open>
  C6. Along every run from the empty store in which the keys \<open>uploadFiles\<close> builds
  for an uploader are pairwise distinct, the statuses a record of that uploader shows
  its subscribers, repetitions dropped, are a prefix of \<open>initial, loading, success\<close>
  or of \<open>initial, loading, error\<close>.
\<close>

theorem C6_lifecycle:
  assumes "distinct (generated P u evs)"
  shows "status_trace (run P evs world0) u k \<in>
           {[], [initial], [initial, loading], [initial, loading, success],
            [initial, loading, error]}"
  using invD(2)[OF inv_run[OF assms], of k]
  by (simp add: key_inv_def lifecycle_def)

subsection \<open>Removal, the registry and keys\<close>

lemmas demo_defs = demo_platform_def proxy_config_def bucket_config_def demo_credentials_def photo_def song_def

lemmas op_defs = run_def world0_def store0_def uploadFiles_def useUploader_def prerequisites_def set_store_def
   emptyUploader_def update_def keyBy_def assign_def fileList_def uploadKey_def upload_def updateStatus_def call_def clear_def
   removeByURL_def files_of_def status_of_def getUploader_def reject_def

text \<open>
  C8. On an uploader that exists, \<open>removeByURL\<close> keeps, in their order, exactly the
  records whose \<open>url\<close> differs from the url given, and leaves the other uploaders
  alone: it removes the records whose \<open>url\<close> equals it and no others. A record that
  has no url yet holds the empty string; it is kept for every non-empty url.
\<close>

theorem C8_removeByURL:
  assumes "getUploader k s = Some up"
  shows "\<exists>s' up'. removeByURL k u s = Inr s' \<and> getUploader k s' = Some up' \<and>
           files up' = filter (\<lambda>(fk, f). url f \<noteq> u) (files up) \<and>
           set (files up') = {(fk, f). (fk, f) \<in> set (files up) \<and> url f \<noteq> u} \<and>
           (\<forall>k'. k' \<noteq> k \<longrightarrow> getUploader k' s' = getUploader k' s) \<and>
           (u \<noteq> [] \<longrightarrow> (\<forall>(fk, f) \<in> set (files up). url f = [] \<longrightarrow> (fk, f) \<in> set (files up')))"
  using assms
  by (auto simp: removeByURL_def update_def getUploader_def update_conv')

theorem C8_counterexample:
  "(let s = store (run demo_platform
               [UseUploader ''chat'' proxy_config,
                UploadFiles ''chat'' (Some [(photo, 0)]) proxy_config] world0);
        k = ''~zod/2023.1.5..10.00.00-photo.png''
    in map_option url (files_of s ''chat'' k) = Some [] \<and>
       status_of s ''chat'' k = Some loading \<and>
       (case removeByURL ''chat'' [] s of
          Inl e \<Rightarrow> False
        | Inr s' \<Rightarrow> files_of s' ''chat'' k = None))"
  by (simp add: demo_defs op_defs)

theorem C8_witness:
  "(let s = store (run demo_platform
               [UseUploader ''chat'' proxy_config,
                UploadFiles ''chat'' (Some [(photo, 0)]) proxy_config] world0)
    in \<exists>s' up'. removeByURL ''chat'' ''https://cdn.example/x'' s = Inr s' \<and> getUploader ''chat'' s' = Some up' \<and>
         map fst (files up') = [''~zod/2023.1.5..10.00.00-photo.png''])"
  using C8_removeByURL[of "''chat''" "store (run demo_platform
               [UseUploader ''chat'' proxy_config,
                UploadFiles ''chat'' (Some [(photo, 0)]) proxy_config] world0)" _ "''https://cdn.example/x''"]
  by (simp add: demo_defs op_defs)

text \<open>
  C5. When the prerequisites hold (a client with the credentials service, or the
  presigned-url service with a non-empty \<open>presignedUrl\<close>), the effect of
  \<open>useUploader\<close> stores a new uploader with no files under the key, whether or not
  one was there, and leaves the other uploaders; when they do not hold, it leaves the
  store as it is. Running the effect twice gives the store that running it once gives.
  It never touches the client.
\<close>

theorem C5_useUploader:
  "(((seen_client \<noteq> None \<and> service configuration = credentials) \<or>
     (service configuration = presigned_url \<and> presignedUrl configuration \<noteq> [])) \<longrightarrow>
      getUploader k (useUploader k seen_client configuration s) =
        Some \<lparr>files = [], ukey = k, uconfig = configuration\<rparr> \<and>
      (\<forall>k'. k' \<noteq> k \<longrightarrow>
         getUploader k' (useUploader k seen_client configuration s) = getUploader k' s)) \<and>
   (\<not> ((seen_client \<noteq> None \<and> service configuration = credentials) \<or>
        (service configuration = presigned_url \<and> presignedUrl configuration \<noteq> [])) \<longrightarrow>
      useUploader k seen_client configuration s = s) \<and>
   useUploader k seen_client configuration (useUploader k seen_client configuration s) =
     useUploader k seen_client configuration s \<and>
   client (useUploader k seen_client configuration s) = client s"
  by (auto simp: useUploader_def prerequisites_def getUploader_def update_conv' emptyUploader_def)

theorem C5_counterexample:
  "(let s = store (run demo_platform
               [UseUploader ''chat'' proxy_config,
                UploadFiles ''chat'' (Some [(photo, 0)]) proxy_config] world0);
        k = ''~zod/2023.1.5..10.00.00-photo.png''
    in map_option (map fst \<circ> files) (getUploader ''chat'' s) = Some [k] \<and>
       map_option files (getUploader ''chat'' (useUploader ''chat'' (client s) proxy_config s))
         = Some [])"
  by (simp add: demo_defs op_defs)

theorem C5_witness:
  "getUploader ''chat'' (useUploader ''chat'' None proxy_config store0) =
        Some \<lparr>files = [], ukey = ''chat'', uconfig = proxy_config\<rparr> \<and>
   useUploader ''chat'' None bucket_config store0 = store0"
  using C5_useUploader[of None proxy_config "''chat''" store0]
        C5_useUploader[of None bucket_config "''chat''" store0]
  by (simp add: demo_defs)

lemma append_sep_inject:
  assumes "c \<notin> set xs" "c \<notin> set xs'" "xs @ c # ys = xs' @ c # ys'"
  shows "xs = xs' \<and> ys = ys'"
proof -
  have "takeWhile (\<lambda>x. x \<noteq> c) (xs @ c # ys) = xs"
    using assms(1) by (auto simp: takeWhile_tail)
  moreover have "takeWhile (\<lambda>x. x \<noteq> c) (xs' @ c # ys') = xs'"
    using assms(2) by (auto simp: takeWhile_tail)
  ultimately have "xs = xs'" using assms(3) by simp
  with assms(3) show ?thesis by simp
qed

lemma uploadKey_inject:
  assumes "CHR ''-'' \<notin> set (da P m1)" "CHR ''-'' \<notin> set (da P m2)"
  shows "(uploadKey P m1 f1 = uploadKey P m2 f2) = (da P m1 = da P m2 \<and> name f1 = name f2)"
  using append_sep_inject[OF assms, of "name f1" "name f2"]
  by (auto simp: uploadKey_def)

lemma fileList_keys: "map fst (fileList P fs) = map (\<lambda>(f, ms). uploadKey P ms f) fs"
  by (simp add: fileList_def case_prod_unfold comp_def)

text \<open>
  C3. A key is the ship, the rendered time and the file name, with no index. When no
  rendered time contains the separator \<open>-\<close>, the keys \<open>uploadFiles\<close> builds for
  a list of files are pairwise distinct exactly when no two of the files share both
  the rendered time and the name.
\<close>

theorem C3_keys:
  assumes "\<forall>(f, ms) \<in> set fs. CHR ''-'' \<notin> set (da P ms)"
  shows "distinct (map fst (fileList P fs)) = distinct (map (\<lambda>(f, ms). (da P ms, name f)) fs)"
proof -
  let ?h = "\<lambda>(f, ms). (da P ms, name f)"
  let ?g = "\<lambda>(d, n). ship P @ ''/'' @ d @ ''-'' @ n"
  have eq: "map fst (fileList P fs) = map ?g (map ?h fs)"
    by (simp add: fileList_keys uploadKey_def case_prod_unfold comp_def)
  have "inj_on ?g (set (map ?h fs))"
  proof (rule inj_onI)
    fix x y assume x: "x \<in> set (map ?h fs)" and y: "y \<in> set (map ?h fs)" and e: "?g x = ?g y"
    from x assms have "CHR ''-'' \<notin> set (fst x)" by auto
    moreover from y assms have "CHR ''-'' \<notin> set (fst y)" by auto
    ultimately show "x = y"
      using e append_sep_inject[of "CHR ''-''" "fst x" "fst y" "snd x" "snd y"]
      by (auto simp: case_prod_unfold prod_eq_iff)
  qed
  then have "distinct (map ?g (map ?h fs)) = distinct (map ?h fs)"
    using distinct_map[of ?g "map ?h fs"] by blast
  then show ?thesis
    by (simp only: eq)
qed

theorem C3_counterexample:
  "\<not> distinct (map fst (fileList demo_platform [(photo, 0), (photo, 0)]))"
  by (simp add: fileList_def)

theorem C3_witness:
  "distinct (map fst (fileList demo_platform [(photo, 0), (photo, 1), (song, 1)]))"
  using C3_keys[of "[(photo, 0), (photo, 1), (song, 1)]" demo_platform]
  by (simp add: demo_defs)





subsection \<open>Runs\<close>

theorem C6_counterexample:
  "status_trace (run demo_platform
        [UseUploader ''chat'' proxy_config,
         UploadFiles ''chat'' (Some [(photo, 0), (photo, 0)]) proxy_config,
         Settle 0 (Presigned (Resolved ''tok'') (Resolved ok_response) (Resolved ok_response)),
         Settle 0 (Presigned (Resolved ''tok'') (Rejected ''Failed to fetch'') (Resolved ok_response))]
        world0) ''chat'' ''~zod/2023.1.5..10.00.00-photo.png''
   = [initial, loading, success, error]"
  by code_simp

theorem C6_witness:
  "distinct (generated demo_platform ''chat''
        [UseUploader ''chat'' proxy_config,
         UploadFiles ''chat'' (Some [(photo, 0), (song, 0)]) proxy_config,
         Settle 0 (Presigned (Resolved ''tok'') (Resolved ok_response) (Resolved ok_response)),
         Settle 0 (Presigned (Resolved ''tok'') (Rejected ''Failed to fetch'') (Resolved ok_response))]) \<and>
   status_trace (run demo_platform
        [UseUploader ''chat'' proxy_config,
         UploadFiles ''chat'' (Some [(photo, 0), (song, 0)]) proxy_config,
         Settle 0 (Presigned (Resolved ''tok'') (Resolved ok_response) (Resolved ok_response)),
         Settle 0 (Presigned (Resolved ''tok'') (Rejected ''Failed to fetch'') (Resolved ok_response))]
        world0) ''chat'' ''~zod/2023.1.5..10.00.00-photo.png''
    \<in> {[], [initial], [initial, loading], [initial, loading, success],
            [initial, loading, error]}"
proof -
  have d: "distinct (generated demo_platform ''chat''
        [UseUploader ''chat'' proxy_config,
         UploadFiles ''chat'' (Some [(photo, 0), (song, 0)]) proxy_config,
         Settle 0 (Presigned (Resolved ''tok'') (Resolved ok_response) (Resolved ok_response)),
         Settle 0 (Presigned (Resolved ''tok'') (Rejected ''Failed to fetch'') (Resolved ok_response))])"
    by code_simp
  from C6_lifecycle[OF d] d show ?thesis by simp
qed

subsection \<open>Settling a task\<close>

lemma settle_PresignedPut:
  assumes "i < length (tasks w)" "tasks w ! i = PresignedPut u k x"
  shows "settle i (Presigned token put get) w =
           settle_presigned u k token put get
             (w\<lparr>tasks := take i (tasks w) @ drop (Suc i) (tasks w)\<rparr>)"
  using assms by (simp add: settle_def)

lemma settle_Send:
  assumes "i < length (tasks w)" "tasks w ! i = Send u k base"
  shows "settle i (Sent signed sent) w =
           settle_send u k base signed sent
             (w\<lparr>tasks := take i (tasks w) @ drop (Suc i) (tasks w)\<rparr>)"
  using assms by (simp add: settle_def)

lemma settle_ImageSize:
  assumes "i < length (tasks w)" "tasks w ! i = ImageSize u k x"
  shows "settle i (Measured m) w =
           settle_size u k x m (w\<lparr>tasks := take i (tasks w) @ drop (Suc i) (tasks w)\<rparr>)"
  using assms by (simp add: settle_def)

lemma catch_error_present:
  assumes "files_of (store w) u k = Some r" "msg \<noteq> []"
  shows "tasks (catch_error u k msg w) = tasks w"
    and "unhandled (catch_error u k msg w) = unhandled w"
    and "files_of (store (catch_error u k msg w)) u' k' =
           (if u' = u \<and> k' = k then Some (r\<lparr>status := Some error, errorMessage := Some msg\<rparr>)
            else files_of (store w) u' k')"
proof -
  from updateStatus_present[OF assms(1), of error "Some msg"] obtain s' where
    s': "updateStatus u k error (Some msg) (store w) = Inr s'"
    "\<forall>u' k'. files_of s' u' k' =
        (if u' = u \<and> k' = k then Some (with_status error (Some msg) r) else files_of (store w) u' k')"
    by blast
  then have c: "catch_error u k msg w = set_store s' w" by (simp add: catch_error_def)
  show "tasks (catch_error u k msg w) = tasks w" "unhandled (catch_error u k msg w) = unhandled w"
    by (simp_all add: c)
  show "files_of (store (catch_error u k msg w)) u' k' =
           (if u' = u \<and> k' = k then Some (r\<lparr>status := Some error, errorMessage := Some msg\<rparr>)
            else files_of (store w) u' k')"
    using s'(2) assms(2) by (simp add: c with_status_def)
qed

lemma then_success_present:
  assumes "files_of (store w) u k = Some r"
  shows "\<exists>w'. then_success u k x w = Inr w' \<and> tasks w' = tasks w @ [ImageSize u k x] \<and>
           unhandled w' = unhandled w \<and>
           (\<forall>u' k'. files_of (store w') u' k' =
              (if u' = u \<and> k' = k then Some (r\<lparr>status := Some success\<rparr>)
               else files_of (store w) u' k'))"
proof -
  from updateStatus_present[OF assms(1), of success None] obtain s' where
    s': "updateStatus u k success None (store w) = Inr s'"
    "\<forall>u' k'. files_of s' u' k' =
        (if u' = u \<and> k' = k then Some (with_status success None r) else files_of (store w) u' k')"
    by blast
  then show ?thesis
    by (simp add: then_success_def with_status_def)
qed

lemma tlon_error_nonempty [simp]: "tlon_error m \<noteq> []"
  by (simp add: tlon_error_def)

lemma s3_error_nonempty [simp]: "s3_error m \<noteq> []"
  by (simp add: s3_error_def)

text \<open>
  C7. In the presigned-url strategy, when the proxy PUT comes back with a status other
  than 200 and its body is read, the record moves to \<open>error\<close> and its
  \<open>errorMessage\<close> is the body, or \<open>Incorrect response status\<close> when the body is
  empty, between \<open>Tlon Hosting upload error: \<close> and
  \<open>, contact support if it persists.\<close>
\<close>

theorem C7_presigned_non200:
  assumes "i < length (tasks w)" and "tasks w ! i = PresignedPut u k x"
    and "files_of (store w) u k = Some r"
    and "status_code response \<noteq> 200" and "body_text response = Resolved body"
  shows "files_of (store (settle i (Presigned (Resolved token) (Resolved response) get) w)) u k =
           Some (r\<lparr>status := Some error,
                   errorMessage := Some (''Tlon Hosting upload error: '' @
                     (if body \<noteq> [] then body else ''Incorrect response status'') @
                     '', contact support if it persists.'')\<rparr>)"
proof -
  let ?w = "w\<lparr>tasks := take i (tasks w) @ drop (Suc i) (tasks w)\<rparr>"
  let ?m = "if body \<noteq> [] then body else ''Incorrect response status''"
  have f: "fetch_then (Resolved response) get = Rejected ?m"
    using assms(4,5) by (simp add: fetch_then_def put_response_def)
  have "files_of (store ?w) u k = Some r" using assms(3) by simp
  from catch_error_present(3)[OF this tlon_error_nonempty, of ?m u k]
  show ?thesis
    unfolding settle_PresignedPut[OF assms(1,2)] settle_presigned_def
    by (simp add: f tlon_error_def)
qed

theorem C7_witness:
  "(let w = run demo_platform
              [UseUploader ''chat'' proxy_config,
               UploadFiles ''chat'' (Some [(photo, 0)]) proxy_config] world0;
        k = ''~zod/2023.1.5..10.00.00-photo.png'';
        w' = settle 0 (Presigned (Resolved ''tok'') (Resolved quota_response) (Rejected [])) w
    in tasks w = [PresignedPut ''chat'' k ''https://proxy.example/~zod/2023.1.5..10.00.00-photo.png''] \<and>
       status_of (store w) ''chat'' k = Some loading \<and>
       status_of (store w') ''chat'' k = Some error \<and>
       map_option errorMessage (files_of (store w') ''chat'' k) =
         Some (Some ''Tlon Hosting upload error: quota exceeded, contact support if it persists.'') \<and>
       (case files_of (store w') ''chat'' k of
          Some r \<Rightarrow> (case errorMessage r of Some m \<Rightarrow> contains ''quota exceeded'' m | None \<Rightarrow> False)
        | None \<Rightarrow> False))"
proof -
  let ?w = "run demo_platform
              [UseUploader ''chat'' proxy_config,
               UploadFiles ''chat'' (Some [(photo, 0)]) proxy_config] world0"
  let ?k = "''~zod/2023.1.5..10.00.00-photo.png''"
  have 1: "0 < length (tasks ?w)" by code_simp
  have 2: "tasks ?w ! 0 = PresignedPut ''chat'' ?k ''https://proxy.example/~zod/2023.1.5..10.00.00-photo.png''"
    by code_simp
  have 3: "files_of (store ?w) ''chat'' ?k =
     Some \<lparr>file' = Some photo, key = Some ?k, status = Some loading, errorMessage = None,
           url = [], size_wh = (0, 0)\<rparr>" by code_simp
  have 4: "status_code quota_response \<noteq> 200" by code_simp
  have 5: "body_text quota_response = Resolved ''quota exceeded''" by code_simp
  have 6: "tasks ?w = [PresignedPut ''chat'' ?k ''https://proxy.example/~zod/2023.1.5..10.00.00-photo.png'']"
    by code_simp
  have 7: "contains ''quota exceeded'' ''Tlon Hosting upload error: quota exceeded, contact support if it persists.''"
    by code_simp
  from C7_presigned_non200[OF 1 2 3 4 5, of "''tok''" "Rejected []"] 3 6 7
  show ?thesis
    by (simp add: Let_def status_of_def)
qed

subsection \<open>What a submission leaves in the store\<close>

lemma updateStatus_uploaders:
  assumes "updateStatus u k st msg s = Inr s'"
  shows "(getUploader u' s' = None) = (getUploader u' s = None)"
  using assms by (auto simp: updateStatus_def update_Inr split: option.splits if_splits)

lemma with_status_ident [simp]:
  "file' (with_status st msg f) = file' f" "key (with_status st msg f) = key f"
  "url (with_status st msg f) = url f" "size_wh (with_status st msg f) = size_wh f"
  by (simp_all add: with_status_def)

lemma upload_store:
  "store (upload P u k cfg w) =
     (case updateStatus u k loading None (store w) of Inl e \<Rightarrow> store w | Inr s \<Rightarrow> s)"
  by (cases "service cfg")
     (auto simp: upload_def Let_def split: sum.splits option.splits)

lemma upload_frame:
  shows "client (store (upload P u k cfg w)) = client (store w)"
    and "(getUploader u' (store (upload P u k cfg w)) = None) = (getUploader u' (store w) = None)"
    and "map_option file' (files_of (store (upload P u k cfg w)) u' k') =
           map_option file' (files_of (store w) u' k')"
    and "map_option key (files_of (store (upload P u k cfg w)) u' k') =
           map_option key (files_of (store w) u' k')"
proof -
  show "client (store (upload P u k cfg w)) = client (store w)"
    by (cases rule: updateStatus_cases[of "store w" u k loading None])
       (simp_all add: upload_store)
  show "(getUploader u' (store (upload P u k cfg w)) = None) = (getUploader u' (store w) = None)"
    by (cases "updateStatus u k loading None (store w)")
       (simp_all add: upload_store updateStatus_uploaders)
  show "map_option file' (files_of (store (upload P u k cfg w)) u' k') =
           map_option file' (files_of (store w) u' k')"
    by (cases rule: updateStatus_cases[of "store w" u k loading None])
       (simp_all add: upload_store)
  show "map_option key (files_of (store (upload P u k cfg w)) u' k') =
           map_option key (files_of (store w) u' k')"
    by (cases rule: updateStatus_cases[of "store w" u k loading None])
       (simp_all add: upload_store)
qed

lemma fold_upload_frame:
  shows "client (store (fold (\<lambda>(k, f). upload P u k cfg) fl w)) = client (store w)"
    and "(getUploader u' (store (fold (\<lambda>(k, f). upload P u k cfg) fl w)) = None) =
           (getUploader u' (store w) = None)"
    and "map_option file' (files_of (store (fold (\<lambda>(k, f). upload P u k cfg) fl w)) u' k') =
           map_option file' (files_of (store w) u' k')"
    and "map_option key (files_of (store (fold (\<lambda>(k, f). upload P u k cfg) fl w)) u' k') =
           map_option key (files_of (store w) u' k')"
  by (induction fl arbitrary: w; simp add: upload_frame case_prod_unfold)+

lemma uploadFiles_effect:
  assumes "getUploader u (store w) \<noteq> None"
  shows "\<exists>w'. uploadFiles P u (Some fs) cfg w = Inr w' \<and>
           getUploader u (store w') \<noteq> None \<and> client (store w') = client (store w) \<and>
           (\<forall>k. k \<notin> fst ` set (fileList P fs) \<longrightarrow>
              map_option file' (files_of (store w') u k) = map_option file' (files_of (store w) u k) \<and>
              map_option key (files_of (store w') u k) = map_option key (files_of (store w) u k)) \<and>
           (\<forall>k \<in> fst ` set (fileList P fs).
              \<exists>r v. files_of (store w') u k = Some r \<and> (k, v) \<in> set (fileList P fs) \<and>
                file' r = file' v \<and> key r = key v)"
proof (cases rule: seed_cases[of u "store w" "fileList P fs"])
  case absent
  then show ?thesis using assms by simp
next
  case (present s')
  let ?w' = "fold (\<lambda>(k, f). upload P u k cfg) (fileList P fs) (set_store s' w)"
  have r: "uploadFiles P u (Some fs) cfg w = Inr ?w'"
    using present(1) by (simp add: uploadFiles_def)
  have u: "getUploader u s' \<noteq> None"
    using present(1) by (auto simp: update_Inr)
  have 1: "getUploader u (store ?w') \<noteq> None"
    using u by (simp add: fold_upload_frame)
  have 2: "client (store ?w') = client (store w)"
    using present(2) by (simp add: fold_upload_frame)
  have 3: "map_option file' (files_of (store ?w') u k) = map_option file' (files_of (store w) u k) \<and>
           map_option key (files_of (store ?w') u k) = map_option key (files_of (store w) u k)"
    if "k \<notin> fst ` set (fileList P fs)" for k
    using present(3)[of u k] that by (simp add: fold_upload_frame)
  have 4: "\<exists>r v. files_of (store ?w') u k = Some r \<and> (k, v) \<in> set (fileList P fs) \<and>
                file' r = file' v \<and> key r = key v"
    if "k \<in> fst ` set (fileList P fs)" for k
  proof -
    from present(4)[OF that] obtain v where v: "files_of s' u k = Some v" "(k, v) \<in> set (fileList P fs)"
      by blast
    have "map_option file' (files_of (store ?w') u k) = Some (file' v)"
      "map_option key (files_of (store ?w') u k) = Some (key v)"
      using v(1) by (simp_all add: fold_upload_frame)
    then show ?thesis using v(2) by auto
  qed
  show ?thesis using r 1 2 3 4 by blast
qed


lemma uploadFiles_client:
  "client (store (step P (UploadFiles u fs cfg) w)) = client (store w)"
proof (cases fs)
  case None
  then show ?thesis by (simp add: uploadFiles_def)
next
  case (Some fs')
  show ?thesis
  proof (cases "getUploader u (store w)")
    case None
    then show ?thesis using Some by (simp add: uploadFiles_def update_Inl_absent)
  next
    case (Some up)
    then have "getUploader u (store w) \<noteq> None" by simp
    from uploadFiles_effect[OF this, of P fs' cfg] \<open>fs = Some fs'\<close> show ?thesis by auto
  qed
qed








subsection \<open>What settling a task writes\<close>

lemma removed_task_simps [simp]:
  "store (w\<lparr>tasks := ts\<rparr>) = store w" "seen (w\<lparr>tasks := ts\<rparr>) = seen w"
  "unhandled (w\<lparr>tasks := ts\<rparr>) = unhandled w" "tasks (w\<lparr>tasks := ts\<rparr>) = ts"
  by simp_all

lemma settle_failure:
  assumes "files_of (store w) u k = Some r" "msg \<noteq> []"
  shows "files_of (store (catch_error u k msg (w\<lparr>tasks := ts\<rparr>))) u k =
           Some (r\<lparr>status := Some error, errorMessage := Some msg\<rparr>) \<and>
         tasks (catch_error u k msg (w\<lparr>tasks := ts\<rparr>)) = ts \<and>
         unhandled (catch_error u k msg (w\<lparr>tasks := ts\<rparr>)) = unhandled w \<and>
         (\<forall>u' k'. (u', k') \<noteq> (u, k) \<longrightarrow>
            files_of (store (catch_error u k msg (w\<lparr>tasks := ts\<rparr>))) u' k' =
              files_of (store w) u' k')"
proof -
  have "files_of (store (w\<lparr>tasks := ts\<rparr>)) u k = Some r" using assms(1) by simp
  note c = catch_error_present[OF this assms(2)]
  show ?thesis using c(1,2) c(3)[of u k] by (auto simp: c(3))
qed

lemma settle_success:
  assumes "files_of (store w) u k = Some r"
  shows "\<exists>w'. then_success u k x (w\<lparr>tasks := ts\<rparr>) = Inr w' \<and>
           files_of (store w') u k = Some (r\<lparr>status := Some success\<rparr>) \<and>
           tasks w' = ts @ [ImageSize u k x] \<and> unhandled w' = unhandled w \<and>
           (\<forall>u' k'. (u', k') \<noteq> (u, k) \<longrightarrow> files_of (store w') u' k' = files_of (store w) u' k')"
proof -
  have "files_of (store (w\<lparr>tasks := ts\<rparr>)) u k = Some r" using assms(1) by simp
  from then_success_present[OF this, of x] show ?thesis by auto
qed

lemma settle_absent:
  assumes "files_of (store w) u k = None"
  shows "catch_error u k msg w = reject w" "then_success u k x w = Inl TypeError"
  using updateStatus_absent[OF assms]
  by (simp_all add: catch_error_def then_success_def)

text \<open>
  C10. \<open>updateStatus\<close> writes \<open>files[fileKey].status\<close> without a guard: it succeeds
  when the record is in the uploader's \<open>files\<close> and throws a \<open>TypeError\<close> when it
  is not. The throwing case is reached: after \<open>clear\<close>, or after \<open>removeByURL\<close> with
  the url the record still has, a dispatch that is still pending settles against a
  record that is gone; both of its writes throw and the rejection is not handled.
\<close>

theorem C10_updateStatus_unguarded:
  "(files_of s u k \<noteq> None \<longrightarrow> (\<exists>s'. updateStatus u k st msg s = Inr s')) \<and>
   (files_of s u k = None \<longrightarrow> updateStatus u k st msg s = Inl TypeError) \<and>
   (i < length (tasks w) \<and> tasks w ! i = PresignedPut u k x \<and>
      files_of (store w) u k = None \<longrightarrow>
      store (settle i (Presigned token put get) w) = store w \<and>
      unhandled (settle i (Presigned token put get) w) = Suc (unhandled w)) \<and>
   (let w0 = run demo_platform
               [UseUploader ''chat'' proxy_config,
                UploadFiles ''chat'' (Some [(photo, 0)]) proxy_config] world0;
        fk = ''~zod/2023.1.5..10.00.00-photo.png'';
        done = Presigned (Resolved ''tok'') (Resolved ok_response) (Resolved ok_response);
        w1 = step demo_platform (Clear ''chat'') w0;
        w2 = step demo_platform (RemoveByURL ''chat'' []) w0
    in files_of (store w0) ''chat'' fk \<noteq> None \<and>
       length (tasks w1) = 1 \<and> files_of (store w1) ''chat'' fk = None \<and>
       updateStatus ''chat'' fk success None (store w1) = Inl TypeError \<and>
       unhandled (step demo_platform (Settle 0 done) w1) = Suc (unhandled w1) \<and>
       length (tasks w2) = 1 \<and> files_of (store w2) ''chat'' fk = None \<and>
       unhandled (step demo_platform (Settle 0 done) w2) = Suc (unhandled w2))"
proof (intro conjI impI)
  assume "files_of s u k \<noteq> None"
  then obtain r where "files_of s u k = Some r" by auto
  from updateStatus_present[OF this, of st msg] show "\<exists>s'. updateStatus u k st msg s = Inr s'"
    by blast
next
  assume "files_of s u k = None"
  then show "updateStatus u k st msg s = Inl TypeError" by (rule updateStatus_absent)
next
  assume a: "i < length (tasks w) \<and> tasks w ! i = PresignedPut u k x \<and>
      files_of (store w) u k = None"
  let ?w = "w\<lparr>tasks := take i (tasks w) @ drop (Suc i) (tasks w)\<rparr>"
  have "files_of (store ?w) u k = None" using a by simp
  note ab = settle_absent[OF this]
  have "settle i (Presigned token put get) w = reject ?w"
    using a
    by (simp add: settle_PresignedPut settle_presigned_def ab split: settled.splits)
  then show "store (settle i (Presigned token put get) w) = store w"
    "unhandled (settle i (Presigned token put get) w) = Suc (unhandled w)"
    by simp_all
next
  show "(let w0 = run demo_platform
               [UseUploader ''chat'' proxy_config,
                UploadFiles ''chat'' (Some [(photo, 0)]) proxy_config] world0;
        fk = ''~zod/2023.1.5..10.00.00-photo.png'';
        done = Presigned (Resolved ''tok'') (Resolved ok_response) (Resolved ok_response);
        w1 = step demo_platform (Clear ''chat'') w0;
        w2 = step demo_platform (RemoveByURL ''chat'' []) w0
    in files_of (store w0) ''chat'' fk \<noteq> None \<and>
       length (tasks w1) = 1 \<and> files_of (store w1) ''chat'' fk = None \<and>
       updateStatus ''chat'' fk success None (store w1) = Inl TypeError \<and>
       unhandled (step demo_platform (Settle 0 done) w1) = Suc (unhandled w1) \<and>
       length (tasks w2) = 1 \<and> files_of (store w2) ''chat'' fk = None \<and>
       unhandled (step demo_platform (Settle 0 done) w2) = Suc (unhandled w2))"
    by code_simp
qed

theorem C10_witness:
  "(let w0 = run demo_platform
               [UseUploader ''chat'' proxy_config,
                UploadFiles ''chat'' (Some [(photo, 0)]) proxy_config] world0;
        w1 = step demo_platform (Clear ''chat'') w0;
        fk = ''~zod/2023.1.5..10.00.00-photo.png''
    in files_of (store w0) ''chat'' fk \<noteq> None \<and>
       (\<exists>s'. updateStatus ''chat'' fk success None (store w0) = Inr s') \<and>
       files_of (store w1) ''chat'' fk = None \<and>
       updateStatus ''chat'' fk success None (store w1) = Inl TypeError \<and>
       tasks w1 ! 0 = PresignedPut ''chat'' fk ''https://proxy.example/~zod/2023.1.5..10.00.00-photo.png'' \<and>
       unhandled (settle 0 (Presigned (Resolved ''tok'') (Rejected ''Failed to fetch'')
                    (Rejected [])) w1) = Suc (unhandled w1))"
proof -
  let ?w0 = "run demo_platform
               [UseUploader ''chat'' proxy_config,
                UploadFiles ''chat'' (Some [(photo, 0)]) proxy_config] world0"
  let ?w1 = "step demo_platform (Clear ''chat'') ?w0"
  let ?fk = "''~zod/2023.1.5..10.00.00-photo.png''"
  let ?x = "''https://proxy.example/~zod/2023.1.5..10.00.00-photo.png''"
  have 1: "files_of (store ?w0) ''chat'' ?fk \<noteq> None" by code_simp
  have 2: "files_of (store ?w1) ''chat'' ?fk = None" by code_simp
  have 3: "0 < length (tasks ?w1)" by code_simp
  have 4: "tasks ?w1 ! 0 = PresignedPut ''chat'' ?fk ?x" by code_simp
  from C10_updateStatus_unguarded[of "store ?w0" "''chat''" ?fk success None 0 ?w1 ?x
          "Resolved ''tok''" "Rejected ''Failed to fetch''" "Rejected []"]
       C10_updateStatus_unguarded[of "store ?w1" "''chat''" ?fk success None 0 ?w1 ?x
          "Resolved ''tok''" "Rejected ''Failed to fetch''" "Rejected []"] 1 2 3 4
  show ?thesis by (simp add: Let_def)
qed

text \<open>
  C1. A record reaches \<open>success\<close> by a write of its \<open>status\<close> alone: its \<open>url\<close>
  stays what it was, the empty string for a record \<open>uploadFiles\<close> seeded, and the
  measurement of the image is left pending. The resolved url is written, with the
  size, by the later update that runs when the measurement resolves; after it the
  record's \<open>url\<close> is the resolved url and its \<open>status\<close> is unchanged. When the
  measurement is rejected nothing is written.
\<close>

theorem C1_success_then_url:
  assumes "i < length (tasks w)" and "files_of (store w) u k = Some r"
  shows "(tasks w ! i = Send u k base \<and> object_url base signed = Resolved x \<longrightarrow>
            (let w' = settle i (Sent signed (Resolved ())) w
             in files_of (store w') u k = Some (r\<lparr>status := Some success\<rparr>) \<and>
                tasks w' = take i (tasks w) @ drop (Suc i) (tasks w) @ [ImageSize u k x])) \<and>
         (tasks w ! i = PresignedPut u k p \<and> fetch_then put get = Resolved x \<longrightarrow>
            (let w' = settle i (Presigned (Resolved token) put get) w
             in files_of (store w') u k = Some (r\<lparr>status := Some success\<rparr>) \<and>
                tasks w' = take i (tasks w) @ drop (Suc i) (tasks w) @ [ImageSize u k x])) \<and>
         (tasks w ! i = ImageSize u k x \<longrightarrow>
            files_of (store (settle i (Measured (Resolved sz)) w)) u k =
              Some (r\<lparr>size_wh := sz, url := x\<rparr>) \<and>
            store (settle i (Measured (Rejected m)) w) = store w)"
proof (intro conjI impI)
  let ?ts = "take i (tasks w) @ drop (Suc i) (tasks w)"
  {
    assume a: "tasks w ! i = Send u k base \<and> object_url base signed = Resolved x"
    from settle_success[OF assms(2), of x ?ts] obtain w' where
      w': "then_success u k x (w\<lparr>tasks := ?ts\<rparr>) = Inr w'"
      "files_of (store w') u k = Some (r\<lparr>status := Some success\<rparr>)"
      "tasks w' = ?ts @ [ImageSize u k x]" by blast
    have "settle i (Sent signed (Resolved ())) w = w'"
      using a assms(1) w'(1) by (simp add: settle_Send settle_send_def)
    then show "let w' = settle i (Sent signed (Resolved ())) w
             in files_of (store w') u k = Some (r\<lparr>status := Some success\<rparr>) \<and>
                tasks w' = take i (tasks w) @ drop (Suc i) (tasks w) @ [ImageSize u k x]"
      using w'(2,3) by simp
  }
  {
    assume a: "tasks w ! i = PresignedPut u k p \<and> fetch_then put get = Resolved x"
    from settle_success[OF assms(2), of x ?ts] obtain w' where
      w': "then_success u k x (w\<lparr>tasks := ?ts\<rparr>) = Inr w'"
      "files_of (store w') u k = Some (r\<lparr>status := Some success\<rparr>)"
      "tasks w' = ?ts @ [ImageSize u k x]" by blast
    have "settle i (Presigned (Resolved token) put get) w = w'"
      using a assms(1) w'(1) by (simp add: settle_PresignedPut settle_presigned_def)
    then show "let w' = settle i (Presigned (Resolved token) put get) w
             in files_of (store w') u k = Some (r\<lparr>status := Some success\<rparr>) \<and>
                tasks w' = take i (tasks w) @ drop (Suc i) (tasks w) @ [ImageSize u k x]"
      using w'(2,3) by simp
  }
  {
    assume a: "tasks w ! i = ImageSize u k x"
    show "store (settle i (Measured (Rejected m)) w) = store w"
      using a assms(1) by (simp add: settle_ImageSize settle_size_def)
    show "files_of (store (settle i (Measured (Resolved sz)) w)) u k =
              Some (r\<lparr>size_wh := sz, url := x\<rparr>)"
    proof (cases rule: updateFile_cases[of u "store w" k "(sz, x)"])
      case absent
      then show ?thesis using assms(2) by (simp add: files_of_def)
    next
      case (present s')
      then show ?thesis
        using a assms by (simp add: settle_ImageSize settle_size_def patched_def)
    qed
  }
qed

theorem C1_counterexample:
  "(let w = run demo_platform
              [UseUploader ''chat'' proxy_config,
               UploadFiles ''chat'' (Some [(photo, 0)]) proxy_config,
               Settle 0 (Presigned (Resolved ''tok'') (Resolved ok_response) (Resolved ok_response))]
              world0;
        w' = step demo_platform (Settle 0 (Measured (Rejected ''not an image''))) w;
        fk = ''~zod/2023.1.5..10.00.00-photo.png''
    in status_of (store w) ''chat'' fk = Some success \<and>
       map_option url (files_of (store w) ''chat'' fk) = Some [] \<and>
       tasks w = [ImageSize ''chat'' fk ''https://cdn.example/photo.png''] \<and>
       status_of (store w') ''chat'' fk = Some success \<and>
       map_option url (files_of (store w') ''chat'' fk) = Some [] \<and>
       tasks w' = [])"
  by code_simp

theorem C1_witness:
  "(let w = run demo_platform
              [UseUploader ''chat'' proxy_config,
               UploadFiles ''chat'' (Some [(photo, 0)]) proxy_config] world0;
        fk = ''~zod/2023.1.5..10.00.00-photo.png'';
        w' = settle 0 (Presigned (Resolved ''tok'') (Resolved ok_response) (Resolved ok_response)) w;
        w'' = settle 0 (Measured (Resolved (640, 480))) w';
        v = run demo_platform
              [CreateClient demo_credentials [],
               UseUploader ''chat'' bucket_config,
               UploadFiles ''chat'' (Some [(photo, 0)]) bucket_config] world0;
        v' = settle 0 (Sent (Rejected []) (Resolved ())) v
    in map_option url (files_of (store w') ''chat'' fk) = Some [] \<and>
       status_of (store w') ''chat'' fk = Some success \<and>
       tasks w' = [ImageSize ''chat'' fk ''https://cdn.example/photo.png''] \<and>
       map_option url (files_of (store w'') ''chat'' fk) = Some ''https://cdn.example/photo.png'' \<and>
       map_option size_wh (files_of (store w'') ''chat'' fk) = Some (640, 480) \<and>
       status_of (store w'') ''chat'' fk = Some success \<and>
       map_option url (files_of (store v') ''chat'' fk) = Some [] \<and>
       status_of (store v') ''chat'' fk = Some success \<and>
       tasks v' = [ImageSize ''chat'' fk ''https://cdn.example/~zod/2023.1.5..10.00.00-photo.png''])"
proof -
  let ?w = "run demo_platform
              [UseUploader ''chat'' proxy_config,
               UploadFiles ''chat'' (Some [(photo, 0)]) proxy_config] world0"
  let ?v = "run demo_platform
              [CreateClient demo_credentials [],
               UseUploader ''chat'' bucket_config,
               UploadFiles ''chat'' (Some [(photo, 0)]) bucket_config] world0"
  let ?fk = "''~zod/2023.1.5..10.00.00-photo.png''"
  let ?p = "''https://proxy.example/~zod/2023.1.5..10.00.00-photo.png''"
  let ?x = "''https://cdn.example/photo.png''"
  let ?y = "''https://cdn.example/~zod/2023.1.5..10.00.00-photo.png''"
  let ?r = "\<lparr>file' = Some photo, key = Some ?fk, status = Some loading, errorMessage = None,
           url = [], size_wh = (0, 0)\<rparr>"
  let ?w' = "settle 0 (Presigned (Resolved ''tok'') (Resolved ok_response) (Resolved ok_response)) ?w"
  have 1: "0 < length (tasks ?w)" by code_simp
  have 2: "files_of (store ?w) ''chat'' ?fk = Some ?r" by code_simp
  have 3: "tasks ?w ! 0 = PresignedPut ''chat'' ?fk ?p" by code_simp
  have 4: "fetch_then (Resolved ok_response) (Resolved ok_response) = Resolved ?x" by code_simp
  have 5: "tasks ?w = [PresignedPut ''chat'' ?fk ?p]" by code_simp
  from C1_success_then_url[OF 1 2, of "None" "Rejected []" ?x ?p "Resolved ok_response"
      "Resolved ok_response" "''tok''" "(0, 0)" "[]"] 3 4 5
  have a: "files_of (store ?w') ''chat'' ?fk = Some (?r\<lparr>status := Some success\<rparr>)"
    "tasks ?w' = [ImageSize ''chat'' ?fk ?x]"
    by (simp_all add: Let_def)
  have 6: "0 < length (tasks ?w')" using a(2) by simp
  have 7: "tasks ?w' ! 0 = ImageSize ''chat'' ?fk ?x" using a(2) by simp
  from C1_success_then_url[OF 6 a(1), of "None" "Rejected []" ?x ?p "Resolved ok_response"
      "Resolved ok_response" "''tok''" "(640, 480)" "[]"] 7
  have b: "files_of (store (settle 0 (Measured (Resolved (640, 480))) ?w')) ''chat'' ?fk =
             Some (?r\<lparr>status := Some success, size_wh := (640, 480), url := ?x\<rparr>)"
    by simp
  have 8: "0 < length (tasks ?v)" by code_simp
  have 9: "files_of (store ?v) ''chat'' ?fk = Some ?r" by code_simp
  have 10: "tasks ?v = [Send ''chat'' ?fk (Some ?y)]" by code_simp
  have 11: "object_url (Some ?y) (Rejected []) = Resolved ?y" by code_simp
  from C1_success_then_url[OF 8 9, of "Some ?y" "Rejected []" ?y ?p "Resolved ok_response"
      "Resolved ok_response" "''tok''" "(0, 0)" "[]"] 10 11
  have c: "files_of (store (settle 0 (Sent (Rejected []) (Resolved ())) ?v)) ''chat'' ?fk =
             Some (?r\<lparr>status := Some success\<rparr>)"
    "tasks (settle 0 (Sent (Rejected []) (Resolved ())) ?v) = [ImageSize ''chat'' ?fk ?y]"
    by (simp_all add: Let_def)
  show ?thesis using a b c by (simp add: Let_def status_of_def)
qed

text \<open>
  C4. \<open>createClient\<close> compares nothing: whenever the endpoint parses it builds a
  client from the credentials it is given and puts it in the one \<open>client\<close> field of
  the store, whatever was there. \<open>useClient\<close> calls it only when complete
  credentials have been seen and the client it rendered with is \<open>null\<close>; once a
  client is stored, \<open>useClient\<close> leaves the store as it is, whether the credentials
  are the same or have changed. A submission never builds a client: \<open>uploadFiles\<close>
  leaves the \<open>client\<close> field as it found it.
\<close>

theorem C4_client_cache:
  "(parseURL P (prefixEndpoint (endpoint creds)) = Some (protocol, host, pathname) \<longrightarrow>
      (\<exists>s'. createClient P creds reg s = Inr s' \<and> uploaders s' = uploaders s \<and>
         map_option client_credentials (client s') = Some creds \<and>
         map_option client_region (client s') = Some (if reg = [] then ''us-east-1'' else reg) \<and>
         map_option forcePathStyle (client s') = Some True)) \<and>
   (seen_client \<noteq> None \<longrightarrow> useClient P hasCredentials seen_client c configuration s = Inr s) \<and>
   (\<not> hasCredentials \<longrightarrow> useClient P hasCredentials seen_client c configuration s = Inr s) \<and>
   (hasCredentials \<and> seen_client = None \<longrightarrow>
      useClient P hasCredentials seen_client (Some creds) configuration s =
        createClient P creds (region configuration) s) \<and>
   client (store (step P (UploadFiles u fs cfg) w)) = client (store w)"
  using uploadFiles_client[of P u fs cfg w]
  by (auto simp: createClient_def useClient_def initClient_def)

theorem C4_counterexample:
  "(let s = store (run demo_platform [CreateClient demo_credentials []] world0);
        rotated = demo_credentials\<lparr>accessKeyId := ''AK2'', secretAccessKey := ''SK2''\<rparr>
    in map_option client_credentials (client s) = Some demo_credentials \<and>
       rotated \<noteq> demo_credentials \<and>
       hasCreds bucket_config (Some rotated) \<and>
       useClient demo_platform True (client s) (Some rotated) bucket_config s = Inr s)"
  by code_simp

theorem C4_witness:
  "(let s = store (run demo_platform [CreateClient demo_credentials []] world0)
    in useClient demo_platform True None (Some demo_credentials) bucket_config store0 = Inr s \<and>
       map_option client_credentials (client s) = Some demo_credentials \<and>
       map_option client_region (client s) = Some ''us-east-1'' \<and>
       useClient demo_platform True (client s) (Some demo_credentials) bucket_config s = Inr s \<and>
       useClient demo_platform False None (Some demo_credentials) bucket_config store0 = Inr store0)"
proof -
  let ?s = "store (run demo_platform [CreateClient demo_credentials []] world0)"
  have 1: "parseURL demo_platform (prefixEndpoint (endpoint demo_credentials)) =
             Some (''https:'', ''s3.example'', ''/'')" by code_simp
  have 2: "createClient demo_platform demo_credentials (region bucket_config) store0 = Inr ?s"
    by code_simp
  have 3: "client ?s \<noteq> None" by code_simp
  have 4: "region bucket_config = []" by code_simp
  from C4_client_cache[of demo_platform demo_credentials "''https:''" "''s3.example''" "''/''"
         "[]" store0 None True "Some demo_credentials" bucket_config "''chat''" None
         bucket_config world0]
       C4_client_cache[of demo_platform demo_credentials "''https:''" "''s3.example''" "''/''"
         "[]" ?s "client ?s" True "Some demo_credentials" bucket_config "''chat''" None
         bucket_config world0]
       C4_client_cache[of demo_platform demo_credentials "''https:''" "''s3.example''" "''/''"
         "[]" store0 None False "Some demo_credentials" bucket_config "''chat''" None
         bucket_config world0]
       1 2 3 4
  show ?thesis by (auto simp: Let_def)
qed

text \<open>
  C2. Once the token is there, every failure of the proxy exchange (the PUT is rejected
  or answers another status than 200, the follow-up GET or its JSON body is rejected)
  moves a record that is still in \<open>files\<close> to \<open>error\<close>, with the message between
  \<open>Tlon Hosting upload error: \<close> and \<open>, contact support if it persists.\<close>; once
  the object url is known, a rejected \<open>send\<close> moves it to \<open>error\<close> with the message
  between \<open>S3 upload error: \<close> and \<open>, check your S3 configuration.\<close> Either way
  the failure is caught: nothing is left unhandled, the task leaves the pending list,
  every other pending task stays and every other record is as it was. A configuration
  that lacks what its strategy needs (an empty \<open>presignedUrl\<close>, no client) starts no
  transfer: the record is set to \<open>loading\<close> and stays there, with no message. And
  \<open>uploadFiles\<close> on an uploader that exists returns without throwing.
\<close>

theorem C2_failures_caught:
  assumes "i < length (tasks w)" and "files_of (store w) u k = Some r"
  shows "(tasks w ! i = PresignedPut u k p \<and> fetch_then put get = Rejected m \<longrightarrow>
            (let w' = settle i (Presigned (Resolved token) put get) w
             in files_of (store w') u k =
                  Some (r\<lparr>status := Some error, errorMessage := Some
                    (''Tlon Hosting upload error: '' @ m @ '', contact support if it persists.'')\<rparr>) \<and>
                tasks w' = take i (tasks w) @ drop (Suc i) (tasks w) \<and>
                unhandled w' = unhandled w \<and>
                (\<forall>u' k'. (u', k') \<noteq> (u, k) \<longrightarrow>
                   files_of (store w') u' k' = files_of (store w) u' k'))) \<and>
         (tasks w ! i = Send u k base \<and> object_url base signed = Resolved x \<longrightarrow>
            (let w' = settle i (Sent signed (Rejected m)) w
             in files_of (store w') u k =
                  Some (r\<lparr>status := Some error, errorMessage := Some
                    (''S3 upload error: '' @ m @ '', check your S3 configuration.'')\<rparr>) \<and>
                tasks w' = take i (tasks w) @ drop (Suc i) (tasks w) \<and>
                unhandled w' = unhandled w \<and>
                (\<forall>u' k'. (u', k') \<noteq> (u, k) \<longrightarrow>
                   files_of (store w') u' k' = files_of (store w) u' k'))) \<and>
         ((service cfg = presigned_url \<and> presignedUrl cfg = []) \<or>
          (service cfg = credentials \<and> client (store w) = None) \<longrightarrow>
            (let w' = upload P u k cfg w
             in files_of (store w') u k = Some (r\<lparr>status := Some loading\<rparr>) \<and>
                tasks w' = tasks w \<and> unhandled w' = unhandled w)) \<and>
         (getUploader v (store z) \<noteq> None \<longrightarrow> (\<exists>z'. uploadFiles P v fs cfg z = Inr z'))"
proof (intro conjI impI)
  let ?ts = "take i (tasks w) @ drop (Suc i) (tasks w)"
  {
    assume a: "tasks w ! i = PresignedPut u k p \<and> fetch_then put get = Rejected m"
    have "settle i (Presigned (Resolved token) put get) w =
            catch_error u k (tlon_error m) (w\<lparr>tasks := ?ts\<rparr>)"
      using a assms(1) by (simp add: settle_PresignedPut settle_presigned_def)
    with settle_failure[OF assms(2) tlon_error_nonempty, of m ?ts]
    show "let w' = settle i (Presigned (Resolved token) put get) w
             in files_of (store w') u k =
                  Some (r\<lparr>status := Some error, errorMessage := Some
                    (''Tlon Hosting upload error: '' @ m @ '', contact support if it persists.'')\<rparr>) \<and>
                tasks w' = take i (tasks w) @ drop (Suc i) (tasks w) \<and>
                unhandled w' = unhandled w \<and>
                (\<forall>u' k'. (u', k') \<noteq> (u, k) \<longrightarrow>
                   files_of (store w') u' k' = files_of (store w) u' k')"
      by (simp add: Let_def tlon_error_def)
  }
  {
    assume a: "tasks w ! i = Send u k base \<and> object_url base signed = Resolved x"
    have "settle i (Sent signed (Rejected m)) w =
            catch_error u k (s3_error m) (w\<lparr>tasks := ?ts\<rparr>)"
      using a assms(1) by (simp add: settle_Send settle_send_def)
    with settle_failure[OF assms(2) s3_error_nonempty, of m ?ts]
    show "let w' = settle i (Sent signed (Rejected m)) w
             in files_of (store w') u k =
                  Some (r\<lparr>status := Some error, errorMessage := Some
                    (''S3 upload error: '' @ m @ '', check your S3 configuration.'')\<rparr>) \<and>
                tasks w' = take i (tasks w) @ drop (Suc i) (tasks w) \<and>
                unhandled w' = unhandled w \<and>
                (\<forall>u' k'. (u', k') \<noteq> (u, k) \<longrightarrow>
                   files_of (store w') u' k' = files_of (store w) u' k')"
      by (simp add: Let_def s3_error_def)
  }
  {
    assume a: "(service cfg = presigned_url \<and> presignedUrl cfg = []) \<or>
          (service cfg = credentials \<and> client (store w) = None)"
    from updateStatus_present[OF assms(2), of loading None] obtain s' where
      s': "updateStatus u k loading None (store w) = Inr s'"
      "\<forall>u' k'. files_of s' u' k' =
        (if u' = u \<and> k' = k then Some (with_status loading None r) else files_of (store w) u' k')"
      by blast
    have "upload P u k cfg w = set_store s' w"
      using a s'(1) by (auto simp: upload_def Let_def)
    then show "let w' = upload P u k cfg w
             in files_of (store w') u k = Some (r\<lparr>status := Some loading\<rparr>) \<and>
                tasks w' = tasks w \<and> unhandled w' = unhandled w"
      using s'(2) by (simp add: Let_def with_status_def)
  }
  assume up: "getUploader v (store z) \<noteq> None"
  show "\<exists>z'. uploadFiles P v fs cfg z = Inr z'"
  proof (cases fs)
    case None
    then show ?thesis by (simp add: uploadFiles_def)
  next
    case (Some fs')
    with uploadFiles_effect[OF up, of P fs' cfg] show ?thesis by blast
  qed
qed

theorem C2_counterexample:
  "(let w = run demo_platform
              [UseUploader ''chat'' proxy_config,
               UploadFiles ''chat'' (Some [(photo, 0)]) (proxy_config\<lparr>presignedUrl := []\<rparr>)]
              world0;
        fk = ''~zod/2023.1.5..10.00.00-photo.png''
    in status_of (store w) ''chat'' fk = Some loading \<and>
       map_option errorMessage (files_of (store w) ''chat'' fk) = Some None \<and>
       tasks w = [] \<and> unhandled w = 0)"
  by code_simp

theorem C2_witness:
  "(let w = run demo_platform
              [CreateClient demo_credentials [],
               UseUploader ''chat'' bucket_config,
               UploadFiles ''chat'' (Some [(photo, 0), (song, 0)]) bucket_config] world0;
        fk = ''~zod/2023.1.5..10.00.00-photo.png'';
        fk' = ''~zod/2023.1.5..10.00.00-song.mp3'';
        w' = settle 0 (Sent (Rejected []) (Rejected ''Access Denied'')) w;
        v = run demo_platform
              [UseUploader ''chat'' proxy_config,
               UploadFiles ''chat'' (Some [(photo, 0)]) proxy_config] world0;
        v' = settle 0 (Presigned (Resolved ''tok'') (Rejected ''Failed to fetch'') (Rejected [])) v;
        v'' = upload demo_platform ''chat'' fk (proxy_config\<lparr>presignedUrl := []\<rparr>) v
    in status_of (store w) ''chat'' fk = Some loading \<and>
       status_of (store w') ''chat'' fk = Some error \<and>
       map_option errorMessage (files_of (store w') ''chat'' fk) =
         Some (Some ''S3 upload error: Access Denied, check your S3 configuration.'') \<and>
       tasks w' = [Send ''chat'' fk' (Some ''https://cdn.example/~zod/2023.1.5..10.00.00-song.mp3'')] \<and>
       status_of (store w') ''chat'' fk' = Some loading \<and>
       unhandled w' = 0 \<and>
       status_of (store v') ''chat'' fk = Some error \<and>
       map_option errorMessage (files_of (store v') ''chat'' fk) =
         Some (Some ''Tlon Hosting upload error: Failed to fetch, contact support if it persists.'') \<and>
       tasks v' = [] \<and>
       status_of (store v'') ''chat'' fk = Some loading \<and> tasks v'' = tasks v \<and>
       (\<exists>z'. uploadFiles demo_platform ''chat'' (Some [(song, 1)])
                (proxy_config\<lparr>presignedUrl := []\<rparr>) v = Inr z'))"
proof -
  let ?w = "run demo_platform
              [CreateClient demo_credentials [],
               UseUploader ''chat'' bucket_config,
               UploadFiles ''chat'' (Some [(photo, 0), (song, 0)]) bucket_config] world0"
  let ?v = "run demo_platform
              [UseUploader ''chat'' proxy_config,
               UploadFiles ''chat'' (Some [(photo, 0)]) proxy_config] world0"
  let ?fk = "''~zod/2023.1.5..10.00.00-photo.png''"
  let ?fk' = "''~zod/2023.1.5..10.00.00-song.mp3''"
  let ?x = "''https://cdn.example/~zod/2023.1.5..10.00.00-photo.png''"
  let ?x' = "''https://cdn.example/~zod/2023.1.5..10.00.00-song.mp3''"
  let ?p = "''https://proxy.example/~zod/2023.1.5..10.00.00-photo.png''"
  let ?none = "proxy_config\<lparr>presignedUrl := []\<rparr>"
  let ?r = "\<lparr>file' = Some photo, key = Some ?fk, status = Some loading, errorMessage = None,
           url = [], size_wh = (0, 0)\<rparr>"
  have 1: "0 < length (tasks ?w)" by code_simp
  have 2: "files_of (store ?w) ''chat'' ?fk = Some ?r" by code_simp
  have 3: "tasks ?w = [Send ''chat'' ?fk (Some ?x), Send ''chat'' ?fk' (Some ?x')]" by code_simp
  have 4: "object_url (Some ?x) (Rejected []) = Resolved ?x" by code_simp
  have 5: "status_of (store ?w) ''chat'' ?fk' = Some loading" by code_simp
  have 6: "unhandled ?w = 0" by code_simp
  have 7: "?fk' \<noteq> ?fk" by simp
  from C2_failures_caught[OF 1 2, where p = "[]" and put = "Rejected []" and get = "Rejected []"
         and m = "''Access Denied''" and token = "[]" and base = "Some ?x"
         and signed = "Rejected []" and x = ?x and cfg = bucket_config and P = demo_platform
         and v = "''chat''" and z = ?w and fs = None] 3 4
  have a: "files_of (store (settle 0 (Sent (Rejected []) (Rejected ''Access Denied'')) ?w)) ''chat'' ?fk =
             Some (?r\<lparr>status := Some error, errorMessage := Some
                    ''S3 upload error: Access Denied, check your S3 configuration.''\<rparr>)"
    "tasks (settle 0 (Sent (Rejected []) (Rejected ''Access Denied'')) ?w) = [Send ''chat'' ?fk' (Some ?x')]"
    "unhandled (settle 0 (Sent (Rejected []) (Rejected ''Access Denied'')) ?w) = unhandled ?w"
    "files_of (store (settle 0 (Sent (Rejected []) (Rejected ''Access Denied'')) ?w)) ''chat'' ?fk' =
       files_of (store ?w) ''chat'' ?fk'"
    by (simp_all add: Let_def)
  have 8: "0 < length (tasks ?v)" by code_simp
  have 9: "files_of (store ?v) ''chat'' ?fk = Some ?r" by code_simp
  have 10: "tasks ?v = [PresignedPut ''chat'' ?fk ?p]" by code_simp
  have 11: "fetch_then (Rejected ''Failed to fetch'') (Rejected []) = Rejected ''Failed to fetch''"
    by code_simp
  have 12: "service ?none = presigned_url \<and> presignedUrl ?none = []" by code_simp
  have 13: "getUploader ''chat'' (store ?v) \<noteq> None" by code_simp
  from C2_failures_caught[OF 8 9, where p = ?p and put = "Rejected ''Failed to fetch''"
         and get = "Rejected []" and m = "''Failed to fetch''" and token = "''tok''"
         and base = None and signed = "Rejected []" and x = "[]" and cfg = ?none
         and P = demo_platform and v = "''chat''" and z = ?v and fs = "Some [(song, 1)]"]
       10 11 12 13
  have b: "files_of (store (settle 0 (Presigned (Resolved ''tok'') (Rejected ''Failed to fetch'')
                (Rejected [])) ?v)) ''chat'' ?fk =
             Some (?r\<lparr>status := Some error, errorMessage := Some
                    ''Tlon Hosting upload error: Failed to fetch, contact support if it persists.''\<rparr>)"
    "tasks (settle 0 (Presigned (Resolved ''tok'') (Rejected ''Failed to fetch'') (Rejected [])) ?v) = []"
    "files_of (store (upload demo_platform ''chat'' ?fk ?none ?v)) ''chat'' ?fk =
       Some (?r\<lparr>status := Some loading\<rparr>)"
    "tasks (upload demo_platform ''chat'' ?fk ?none ?v) = tasks ?v"
    "\<exists>z'. uploadFiles demo_platform ''chat'' (Some [(song, 1)]) ?none ?v = Inr z'"
    by (simp_all add: Let_def)
  show ?thesis
    using a b 2 5 6 by (simp add: Let_def status_of_def)
qed

end
